theory Spec2Isabelle
  imports Main "HOL-Library.AList"
begin

section \<open>Python values, strings and dictionaries\<close>

text \<open>
  A Python \<open>str\<close> is a sequence of code points. It is modelled as a \<open>string\<close>, each
  \<open>char\<close> standing for one code point in the range U+0000 .. U+00FF; the library
  functions on strings below (\<open>lower\<close>, \<open>strip\<close>, \<open>splitlines\<close>) are written out as
  Python defines them on that range. The name normalizer is given a second time on
  all code points, where it differs in kind: see \<open>normalize_code_points\<close>.

  Python is dynamically typed: a dictionary field read by \<open>csv.DictReader\<close> may be
  \<open>None\<close>, and so may the hash stored in a metadata record. \<open>pyval\<close> is the type of
  the values that reach the code modelled here.

  A \<open>dict\<close> keeps its keys in insertion order; it is an association list with
  distinct keys. Assigning to a key that is present replaces the value in place,
  assigning to a new key appends: this is \<open>AList.update\<close>.
\<close>

datatype pyval = PyNone | Str string

type_synonym pydict = "(pyval \<times> pyval) list"

text \<open>A row of \<open>csv.DictReader\<close>, read by column name only.\<close>

type_synonym row = "string \<rightharpoonup> pyval"

datatype error =
    RequestException
  | HTTPError nat
  | KeyError string
  | AttributeError
  | TypeError
  | CsvError
  | BadZipFile
  | OSError
  | WaybackError

definition in_range :: "nat \<Rightarrow> nat \<Rightarrow> char \<Rightarrow> bool" where
  "in_range lo hi c \<longleftrightarrow> lo \<le> of_char c \<and> (of_char c :: nat) \<le> hi"

definition is_lower :: "char \<Rightarrow> bool" where
  "is_lower c \<longleftrightarrow> in_range 97 122 c"

definition is_upper :: "char \<Rightarrow> bool" where
  "is_upper c \<longleftrightarrow> in_range 65 90 c"

definition is_digit :: "char \<Rightarrow> bool" where
  "is_digit c \<longleftrightarrow> in_range 48 57 c"

text \<open>\<open>str.lower\<close> on U+0000 .. U+00FF: the ASCII capitals and the Latin-1 capitals
  U+00C0 .. U+00DE (the multiplication sign U+00D7 apart) move up by 32.\<close>

definition lower_char :: "char \<Rightarrow> char" where
  "lower_char c =
     (if is_upper c \<or> (in_range 192 222 c \<and> of_char c \<noteq> (215 :: nat))
      then char_of (of_char c + (32 :: nat)) else c)"

definition py_lower :: "string \<Rightarrow> string" where
  "py_lower s = map lower_char s"

text \<open>\<open>str.isspace\<close> on the same range.\<close>

definition is_space :: "char \<Rightarrow> bool" where
  "is_space c \<longleftrightarrow> in_range 9 13 c \<or> in_range 28 32 c \<or> of_char c = (133 :: nat)
                 \<or> of_char c = (160 :: nat)"

definition py_strip :: "string \<Rightarrow> string" where
  "py_strip s = rev (dropWhile is_space (rev (dropWhile is_space s)))"

text \<open>\<open>s.replace(a, b)\<close> for single characters \<open>a\<close> and \<open>b\<close>.\<close>

definition replace_char :: "char \<Rightarrow> char \<Rightarrow> string \<Rightarrow> string" where
  "replace_char a b s = map (\<lambda>c. if c = a then b else c) s"

section \<open>Name normalizer\<close>

definition normalize_artist_name :: "string \<Rightarrow> string" where
  "normalize_artist_name name =
     (let name = py_lower name;
          name = replace_char CHR ''$'' CHR ''s'' name
      in filter (\<lambda>c. is_lower c \<or> is_digit c) name)"

definition filename_char :: "char \<Rightarrow> bool" where
  "filename_char c \<longleftrightarrow> is_lower c \<or> is_upper c \<or> is_digit c
                      \<or> c = CHR ''_'' \<or> c = CHR ''.'' \<or> c = CHR ''-''"

definition sanitize_filename :: "string \<Rightarrow> string" where
  "sanitize_filename filename =
     (let filename = replace_char CHR ''$'' CHR ''s'' filename;
          filename = filter (\<lambda>c. c \<noteq> CHR '' '') filename
      in filter filename_char filename)"

section \<open>The name normalizer on all code points\<close>

text \<open>
  Above, a character stands for a code point below U+0100. The name normalizer is also
  given on every code point, a name being the list of its code points as numbers,
  because \<open>str.lower\<close> sends two code points from beyond that range to ASCII letters.

  \<open>lower_runs\<close> is the lowercase mapping of the Unicode database (version 14.0, the
  one of CPython 3.11) for the code points from U+0100 whose lowercase is one other
  code point, U+03A3 apart. A run \<open>(lo, hi, step, target)\<close> says that \<open>lo\<close>,
  \<open>lo + step\<close>, ..., \<open>hi\<close> map to \<open>target\<close>, \<open>target + step\<close>, ... in this order.
  U+0130 maps to the two code points U+0069 U+0307. Every other code point from
  U+0100 is its own lowercase.
\<close>

definition lower_runs :: "(nat \<times> nat \<times> nat \<times> nat) list" where
  "lower_runs =
     [(256, 302, 2, 257), (306, 310, 2, 307), (313, 327, 2, 314), (330, 374, 2, 331),
      (376, 376, 1, 255), (377, 381, 2, 378), (385, 385, 1, 595), (386, 388, 2, 387),
      (390, 390, 1, 596), (391, 391, 1, 392), (393, 394, 1, 598), (395, 395, 1, 396),
      (398, 398, 1, 477), (399, 399, 1, 601), (400, 400, 1, 603), (401, 401, 1, 402),
      (403, 403, 1, 608), (404, 404, 1, 611), (406, 406, 1, 617), (407, 407, 1, 616),
      (408, 408, 1, 409), (412, 412, 1, 623), (413, 413, 1, 626), (415, 415, 1, 629),
      (416, 420, 2, 417), (422, 422, 1, 640), (423, 423, 1, 424), (425, 425, 1, 643),
      (428, 428, 1, 429), (430, 430, 1, 648), (431, 431, 1, 432), (433, 434, 1, 650),
      (435, 437, 2, 436), (439, 439, 1, 658), (440, 440, 1, 441), (444, 444, 1, 445),
      (452, 452, 1, 454), (453, 453, 1, 454), (455, 455, 1, 457), (456, 456, 1, 457),
      (458, 458, 1, 460), (459, 475, 2, 460), (478, 494, 2, 479), (497, 497, 1, 499),
      (498, 500, 2, 499), (502, 502, 1, 405), (503, 503, 1, 447), (504, 542, 2, 505),
      (544, 544, 1, 414), (546, 562, 2, 547), (570, 570, 1, 11365), (571, 571, 1, 572),
      (573, 573, 1, 410), (574, 574, 1, 11366), (577, 577, 1, 578), (579, 579, 1, 384),
      (580, 580, 1, 649), (581, 581, 1, 652), (582, 590, 2, 583), (880, 882, 2, 881),
      (886, 886, 1, 887), (895, 895, 1, 1011), (902, 902, 1, 940), (904, 906, 1, 941),
      (908, 908, 1, 972), (910, 911, 1, 973), (913, 929, 1, 945), (932, 939, 1, 964),
      (975, 975, 1, 983), (984, 1006, 2, 985), (1012, 1012, 1, 952), (1015, 1015, 1, 1016),
      (1017, 1017, 1, 1010), (1018, 1018, 1, 1019), (1021, 1023, 1, 891),
      (1024, 1039, 1, 1104), (1040, 1071, 1, 1072), (1120, 1152, 2, 1121),
      (1162, 1214, 2, 1163), (1216, 1216, 1, 1231), (1217, 1229, 2, 1218),
      (1232, 1326, 2, 1233), (1329, 1366, 1, 1377), (4256, 4293, 1, 11520),
      (4295, 4295, 1, 11559), (4301, 4301, 1, 11565), (5024, 5103, 1, 43888),
      (5104, 5109, 1, 5112), (7312, 7354, 1, 4304), (7357, 7359, 1, 4349),
      (7680, 7828, 2, 7681), (7838, 7838, 1, 223), (7840, 7934, 2, 7841),
      (7944, 7951, 1, 7936), (7960, 7965, 1, 7952), (7976, 7983, 1, 7968),
      (7992, 7999, 1, 7984), (8008, 8013, 1, 8000), (8025, 8031, 2, 8017),
      (8040, 8047, 1, 8032), (8072, 8079, 1, 8064), (8088, 8095, 1, 8080),
      (8104, 8111, 1, 8096), (8120, 8121, 1, 8112), (8122, 8123, 1, 8048),
      (8124, 8124, 1, 8115), (8136, 8139, 1, 8050), (8140, 8140, 1, 8131),
      (8152, 8153, 1, 8144), (8154, 8155, 1, 8054), (8168, 8169, 1, 8160),
      (8170, 8171, 1, 8058), (8172, 8172, 1, 8165), (8184, 8185, 1, 8056),
      (8186, 8187, 1, 8060), (8188, 8188, 1, 8179), (8486, 8486, 1, 969),
      (8490, 8490, 1, 107), (8491, 8491, 1, 229), (8498, 8498, 1, 8526),
      (8544, 8559, 1, 8560), (8579, 8579, 1, 8580), (9398, 9423, 1, 9424),
      (11264, 11311, 1, 11312), (11360, 11360, 1, 11361), (11362, 11362, 1, 619),
      (11363, 11363, 1, 7549), (11364, 11364, 1, 637), (11367, 11371, 2, 11368),
      (11373, 11373, 1, 593), (11374, 11374, 1, 625), (11375, 11375, 1, 592),
      (11376, 11376, 1, 594), (11378, 11378, 1, 11379), (11381, 11381, 1, 11382),
      (11390, 11391, 1, 575), (11392, 11490, 2, 11393), (11499, 11501, 2, 11500),
      (11506, 11506, 1, 11507), (42560, 42604, 2, 42561), (42624, 42650, 2, 42625),
      (42786, 42798, 2, 42787), (42802, 42862, 2, 42803), (42873, 42875, 2, 42874),
      (42877, 42877, 1, 7545), (42878, 42886, 2, 42879), (42891, 42891, 1, 42892),
      (42893, 42893, 1, 613), (42896, 42898, 2, 42897), (42902, 42920, 2, 42903),
      (42922, 42922, 1, 614), (42923, 42923, 1, 604), (42924, 42924, 1, 609),
      (42925, 42925, 1, 620), (42926, 42926, 1, 618), (42928, 42928, 1, 670),
      (42929, 42929, 1, 647), (42930, 42930, 1, 669), (42931, 42931, 1, 43859),
      (42932, 42946, 2, 42933), (42948, 42948, 1, 42900), (42949, 42949, 1, 642),
      (42950, 42950, 1, 7566), (42951, 42953, 2, 42952), (42960, 42960, 1, 42961),
      (42966, 42968, 2, 42967), (42997, 42997, 1, 42998), (65313, 65338, 1, 65345),
      (66560, 66599, 1, 66600), (66736, 66771, 1, 66776), (66928, 66938, 1, 66967),
      (66940, 66954, 1, 66979), (66956, 66962, 1, 66995), (66964, 66965, 1, 67003),
      (68736, 68786, 1, 68800), (71840, 71871, 1, 71872), (93760, 93791, 1, 93792),
      (125184, 125217, 1, 125218)]"

fun find_run :: "(nat \<times> nat \<times> nat \<times> nat) list \<Rightarrow> nat \<Rightarrow> nat option" where
  "find_run [] c = None"
| "find_run ((lo, hi, step, target) # runs) c =
     (if lo \<le> c \<and> c \<le> hi \<and> (c - lo) mod step = 0 then Some (target + (c - lo))
      else find_run runs c)"

definition lower_point :: "nat \<Rightarrow> nat list" where
  "lower_point c =
     (if c < 256
      then [if (65 \<le> c \<and> c \<le> 90) \<or> (192 \<le> c \<and> c \<le> 222 \<and> c \<noteq> 215) then c + 32 else c]
      else if c = 304 then [105, 775]
      else (case find_run lower_runs c of None \<Rightarrow> [c] | Some l \<Rightarrow> [l]))"

text \<open>
  \<open>str.lower\<close> works code point by code point, but for U+03A3, the capital sigma: it
  becomes U+03C2 in the Final_Sigma context of the Unicode standard and U+03C3
  otherwise. Whether the code points before and after make that context is decided
  with further tables of the database; it is a parameter here.
\<close>

fun lower_points :: "(nat list \<Rightarrow> nat list \<Rightarrow> bool) \<Rightarrow> nat list \<Rightarrow> nat list \<Rightarrow> nat list" where
  "lower_points final_sigma before [] = []"
| "lower_points final_sigma before (c # rest) =
     (if c = 931 then [if final_sigma before rest then 962 else 963] else lower_point c)
     @ lower_points final_sigma (before @ [c]) rest"

text \<open>The code points that \<open>re.sub(r'[^a-z0-9]', '', name)\<close> keeps.\<close>

definition name_point :: "nat \<Rightarrow> bool" where
  "name_point c \<longleftrightarrow> (97 \<le> c \<and> c \<le> 122) \<or> (48 \<le> c \<and> c \<le> 57)"

text \<open>\<open>normalize_artist_name\<close> on the code points of a name; 36 is the dollar sign and
  115 the letter \<open>s\<close>.\<close>

definition normalize_code_points :: "(nat list \<Rightarrow> nat list \<Rightarrow> bool) \<Rightarrow> nat list \<Rightarrow> nat list" where
  "normalize_code_points final_sigma name =
     (let name = lower_points final_sigma [] name;
          name = map (\<lambda>c. if c = 36 then 115 else c) name
      in filter name_point name)"

text \<open>An ASCII letter, a digit or the dollar sign.\<close>

definition plain_point :: "nat \<Rightarrow> bool" where
  "plain_point c \<longleftrightarrow> (65 \<le> c \<and> c \<le> 90) \<or> (97 \<le> c \<and> c \<le> 122) \<or> (48 \<le> c \<and> c \<le> 57) \<or> c = 36"

section \<open>URL cleaning and identifier extraction\<close>

text \<open>The character class \<open>[a-zA-Z0-9-_]\<close>: after the range \<open>0-9\<close> the hyphen is a
  literal, so the class holds the letters, the digits, \<open>-\<close> and \<open>_\<close>.\<close>

definition id_char :: "char \<Rightarrow> bool" where
  "id_char c \<longleftrightarrow> is_lower c \<or> is_upper c \<or> is_digit c \<or> c = CHR ''-'' \<or> c = CHR ''_''"

text \<open>
  Both patterns of the source have the shape: a literal, then a group of exactly \<open>n\<close>
  characters of the class, then a literal. \<open>match_here pre n post s\<close> is the attempt
  to match that shape at the start of \<open>s\<close>; it returns the group.

  \<open>re.search\<close> tries every start position from the left and returns the first match.
\<close>

definition match_here :: "string \<Rightarrow> nat \<Rightarrow> string \<Rightarrow> string \<Rightarrow> string option" where
  "match_here pre n post s =
     (let g = take n (drop (length pre) s)
      in if take (length pre) s = pre \<and> length g = n \<and> list_all id_char g
            \<and> take (length post) (drop (length pre + n) s) = post
         then Some g else None)"

fun re_search :: "(string \<Rightarrow> string option) \<Rightarrow> string \<Rightarrow> string option" where
  "re_search m [] = m []"
| "re_search m (c # cs) = (case m (c # cs) of Some g \<Rightarrow> Some g | None \<Rightarrow> re_search m cs)"

definition sheet_prefix :: string where
  "sheet_prefix = ''https://docs.google.com/spreadsheets/d/''"

definition clean_url :: "string \<Rightarrow> string option" where
  "clean_url url =
     (case re_search (match_here sheet_prefix 44 []) url of
        Some g \<Rightarrow> Some (sheet_prefix @ g @ ''/'')
      | None \<Rightarrow> None)"

definition extract_sheet_id :: "string \<Rightarrow> string option" where
  "extract_sheet_id url = re_search (match_here ''/d/'' 44 ''/'') url"

section \<open>Catalog fetcher: parsing the payload\<close>

text \<open>
  The body of the loop of \<open>parse_csv\<close>, for one row. \<open>row.get("Best", "")\<close> is the
  empty string when the column is missing and \<open>None\<close> when the row is short;
  \<open>None.strip()\<close> and \<open>None.lower()\<close> raise AttributeError, \<open>row["..."]\<close> on a missing
  column raises KeyError, \<open>re.search\<close> on \<open>None\<close> raises TypeError.
\<close>

definition row_get :: "row \<Rightarrow> string \<Rightarrow> pyval \<Rightarrow> pyval" where
  "row_get row key dflt = (case row key of None \<Rightarrow> dflt | Some v \<Rightarrow> v)"

definition parse_row :: "pydict \<Rightarrow> row \<Rightarrow> error + pydict" where
  "parse_row result row =
     (case row_get row ''Best'' (Str []) of
        PyNone \<Rightarrow> Inl AttributeError
      | Str best \<Rightarrow>
          if py_lower (py_strip best) \<noteq> ''yes'' then Inr result
          else (case row ''Artist Name'' of
                  None \<Rightarrow> Inl (KeyError ''Artist Name'')
                | Some PyNone \<Rightarrow> Inl AttributeError
                | Some (Str name) \<Rightarrow>
                    (let artist = normalize_artist_name name
                     in case row ''URL'' of
                          None \<Rightarrow> Inl (KeyError ''URL'')
                        | Some PyNone \<Rightarrow> Inl TypeError
                        | Some (Str u) \<Rightarrow>
                            (case clean_url u of
                               None \<Rightarrow> Inr result
                             | Some url \<Rightarrow>
                                 if artist \<noteq> [] then Inr (AList.update (Str artist) (Str url) result)
                                 else Inr result))))"

fun parse_rows :: "pydict \<Rightarrow> row list \<Rightarrow> error + pydict" where
  "parse_rows result [] = Inr result"
| "parse_rows result (row # rows) =
     (case parse_row result row of
        Inl e \<Rightarrow> Inl e
      | Inr result' \<Rightarrow> parse_rows result' rows)"

text \<open>\<open>reader\<close> is \<open>csv.DictReader\<close>: the rows of a text, or the error it raises.\<close>

definition parse_csv :: "(string \<Rightarrow> error + row list) \<Rightarrow> string \<Rightarrow> error + pydict" where
  "parse_csv reader text =
     (case reader text of
        Inl e \<Rightarrow> Inl e
      | Inr rows \<Rightarrow> parse_rows [] rows)"

section \<open>Change detector\<close>

text \<open>The dictionary comprehension of \<open>run_once\<close>: the items of \<open>remote_data\<close>, in
  order, whose key is not in \<open>cached_data\<close> or is there with another value.\<close>

definition to_update :: "pydict \<Rightarrow> pydict \<Rightarrow> pydict" where
  "to_update remote_data cached_data =
     filter (\<lambda>(artist, url). map_of cached_data artist = None
                              \<or> map_of cached_data artist \<noteq> Some url) remote_data"

section \<open>Files\<close>

text \<open>
  The file store maps a path to the text of the file at that path; directories are
  implicit. Opening with mode \<open>w\<close> or \<open>wb\<close> and writing replaces the text, mode \<open>a\<close>
  appends (creating the file when it is absent). Input and output errors of the
  operating system are outside the model, except the one that the program's own data
  decides: opening a path that names a directory.
\<close>

type_synonym fs = "(string \<times> string) list"

definition write_file :: "fs \<Rightarrow> string \<Rightarrow> string \<Rightarrow> fs" where
  "write_file files path data = AList.update path data files"

definition append_file :: "fs \<Rightarrow> string \<Rightarrow> string \<Rightarrow> fs" where
  "append_file files path data =
     AList.update path (case map_of files path of None \<Rightarrow> data | Some old \<Rightarrow> old @ data) files"

text \<open>\<open>os.path.join\<close> and \<open>os.path.basename\<close> for two components, on POSIX.\<close>

definition path_join :: "string \<Rightarrow> string \<Rightarrow> string" where
  "path_join a b =
     (if b \<noteq> [] \<and> hd b = CHR ''/'' then b
      else if a = [] \<or> last a = CHR ''/'' then a @ b
      else a @ ''/'' @ b)"

definition basename :: "string \<Rightarrow> string" where
  "basename p = rev (takeWhile (\<lambda>c. c \<noteq> CHR ''/'') (rev p))"

text \<open>The names of the files directly in a directory: \<open>os.listdir\<close> filtered by
  \<open>os.path.isfile\<close>, in the order of the store.\<close>

definition strip_prefix :: "string \<Rightarrow> string \<Rightarrow> string option" where
  "strip_prefix pre s = (if take (length pre) s = pre then Some (drop (length pre) s) else None)"

definition list_files :: "fs \<Rightarrow> string \<Rightarrow> string list" where
  "list_files files dir =
     concat (map (\<lambda>(path, data).
        case strip_prefix (path_join dir []) path of
          None \<Rightarrow> []
        | Some name \<Rightarrow> if name \<noteq> [] \<and> CHR ''/'' \<notin> set name then [name] else []) files)"

section \<open>Failure log\<close>

definition log_down_host :: "string \<Rightarrow> fs \<Rightarrow> fs" where
  "log_down_host url files = append_file files ''host/down.txt'' (url @ [CHR 0x0A])"

section \<open>File metadata\<close>

definition get_metadata_path :: "string \<Rightarrow> string" where
  "get_metadata_path file_path = file_path @ ''.meta''"

text \<open>Reading in text mode turns \<open>\r\n\<close> and \<open>\r\<close> into \<open>\n\<close>.\<close>

fun universal_newlines :: "string \<Rightarrow> string" where
  "universal_newlines [] = []"
| "universal_newlines [c] = (if c = CHR 0x0D then [CHR 0x0A] else [c])"
| "universal_newlines (c # d # ds) =
     (if c = CHR 0x0D \<and> d = CHR 0x0A then CHR 0x0A # universal_newlines ds
      else if c = CHR 0x0D then CHR 0x0A # universal_newlines (d # ds)
      else c # universal_newlines (d # ds))"

text \<open>\<open>str.splitlines\<close>: the line boundaries below U+0100 are \<open>\n\<close>, \<open>\v\<close>, \<open>\f\<close>,
  \<open>\r\<close>, \<open>\r\n\<close>, U+001C, U+001D, U+001E and U+0085; a boundary at the very end opens no
  further line.\<close>

definition line_break :: "char \<Rightarrow> bool" where
  "line_break c \<longleftrightarrow> in_range 10 13 c \<or> in_range 28 30 c \<or> of_char c = (133 :: nat)"

fun splitlines_from :: "string \<Rightarrow> string \<Rightarrow> string list" where
  "splitlines_from cur [] = (if cur = [] then [] else [cur])"
| "splitlines_from cur [c] = (if line_break c then [cur] else [cur @ [c]])"
| "splitlines_from cur (c # d # ds) =
     (if c = CHR 0x0D \<and> d = CHR 0x0A then cur # splitlines_from [] ds
      else if line_break c then cur # splitlines_from [] (d # ds)
      else splitlines_from (cur @ [c]) (d # ds))"

definition py_splitlines :: "string \<Rightarrow> string list" where
  "py_splitlines s = splitlines_from [] s"

text \<open>\<open>line.split(":", 1)\<close> on a line that holds a colon, as a key and a value.\<close>

definition split_colon :: "string \<Rightarrow> pyval \<times> pyval" where
  "split_colon line =
     (Str (takeWhile (\<lambda>c. c \<noteq> CHR '':'') line),
      Str (drop 1 (dropWhile (\<lambda>c. c \<noteq> CHR '':'') line)))"

text \<open>\<open>dict(pairs)\<close>: the pairs are assigned one after the other.\<close>

definition py_dict :: "(pyval \<times> pyval) list \<Rightarrow> pydict" where
  "py_dict pairs = foldl (\<lambda>d (k, v). AList.update k v d) [] pairs"

definition load_metadata :: "fs \<Rightarrow> string \<Rightarrow> pydict" where
  "load_metadata files file_path =
     (case map_of files (get_metadata_path file_path) of
        None \<Rightarrow> []
      | Some raw \<Rightarrow>
          (let lines = py_splitlines (universal_newlines raw)
           in py_dict (map split_colon (filter (\<lambda>line. CHR '':'' \<in> set line) lines))))"

text \<open>What an f-string writes for a value.\<close>

definition py_format :: "pyval \<Rightarrow> string" where
  "py_format v = (case v of PyNone \<Rightarrow> ''None'' | Str s \<Rightarrow> s)"

definition metadata_text :: "pydict \<Rightarrow> string" where
  "metadata_text metadata =
     concat (map (\<lambda>(key, value). py_format key @ '':'' @ py_format value @ [CHR 0x0A]) metadata)"

definition save_metadata :: "fs \<Rightarrow> string \<Rightarrow> pydict \<Rightarrow> fs" where
  "save_metadata files file_path metadata =
     write_file files (get_metadata_path file_path) (metadata_text metadata)"

section \<open>Archive throttler\<close>

text \<open>
  What \<open>archive_file\<close> takes from outside the program: the hash function of
  \<open>hashlib\<close>, \<open>datetime.strptime\<close> and \<open>strftime\<close> for the format \<open>%Y-%m-%d\<close> (dates are
  any linearly ordered type), the date at the moment of the decision and at the
  moment of recording (a delay lies between them), the draw of \<open>random.randint(7, 13)\<close>
  and the answer of the archive service to a submission.
\<close>

record 'd archive_env =
  sha256_hex :: "string \<Rightarrow> string"
  strptime :: "string \<Rightarrow> 'd option"
  strftime :: "'d \<Rightarrow> string"
  date_at_check :: 'd
  randint :: nat
  wayback_save :: "string \<Rightarrow> error + string"
  date_at_record :: 'd

datatype event = Sleep nat | Submit string

definition sha256_of_file :: "(string \<Rightarrow> string) \<Rightarrow> fs \<Rightarrow> string \<Rightarrow> pyval" where
  "sha256_of_file hash files path =
     (case map_of files path of None \<Rightarrow> PyNone | Some data \<Rightarrow> Str (hash data))"

text \<open>\<open>strptime\<close> raises on \<open>None\<close> and on a string that is not a date; the bare
  \<open>except\<close> turns both into \<open>True\<close>.\<close>

definition should_archive_today :: "(string \<Rightarrow> 'd option) \<Rightarrow> 'd::ord \<Rightarrow> pyval \<Rightarrow> bool" where
  "should_archive_today parse today lastarchive =
     (case lastarchive of
        PyNone \<Rightarrow> True
      | Str s \<Rightarrow> (case parse s of None \<Rightarrow> True | Some last_time \<Rightarrow> today > last_time))"

text \<open>\<open>metadata.get(key)\<close>.\<close>

definition dict_get :: "pydict \<Rightarrow> string \<Rightarrow> pyval" where
  "dict_get d key = (case map_of d (Str key) of None \<Rightarrow> PyNone | Some v \<Rightarrow> v)"

text \<open>One run of \<open>archive_file\<close>, alone on the file store: the store afterwards and
  the delay and submission it made.\<close>

definition archive_file :: "('d::ord) archive_env \<Rightarrow> fs \<Rightarrow> string \<Rightarrow> string \<Rightarrow> fs \<times> event list" where
  "archive_file E files file_path public_url =
     (let metadata = load_metadata files file_path;
          sha = sha256_of_file (sha256_hex E) files file_path;
          lastarchive = dict_get metadata ''lastarchive''
      in if \<not> should_archive_today (strptime E) (date_at_check E) lastarchive then (files, [])
         else
           (let delay = randint E * 60
            in case wayback_save E public_url of
                 Inl e \<Rightarrow> (files, [Sleep delay, Submit public_url])
               | Inr archive_url \<Rightarrow>
                   (let metadata = AList.update (Str ''sha256'') sha metadata;
                        metadata = AList.update (Str ''lastarchive'')
                                     (Str (strftime E (date_at_record E))) metadata
                    in (save_metadata files file_path metadata,
                        [Sleep delay, Submit public_url]))))"

section \<open>Network and export downloader\<close>

text \<open>
  \<open>requests.get\<close> either raises (no response) or returns a response with a status and
  a body. \<open>raise_for_status\<close> raises HTTPError for the statuses 400 to 599 and for no
  other. The world holds the file store and the list of the URLs requested so far;
  the network answers the \<open>n\<close>-th request of a run for a URL.
\<close>

datatype http_result = ConnectionFailed | Response nat string

datatype member_read = Open_fails | Read_fails | Content string

record world =
  disk :: fs
  requests :: "string list"

text \<open>
  What a cycle takes from outside the program: the network, \<open>csv.DictReader\<close> (the
  rows of a text, or the error it raises), \<open>csv.writer\<close> (the text of one row) and
  \<open>zipfile\<close> (the members of an archive in the order of \<open>namelist\<close>, each with what
  opening and reading it gives; \<open>None\<close> when the bytes are no archive).
\<close>

record env =
  http :: "nat \<Rightarrow> string \<Rightarrow> http_result"
  dict_reader :: "string \<Rightarrow> error + row list"
  writerow :: "pyval list \<Rightarrow> string"
  zip_read :: "string \<Rightarrow> (string \<times> member_read) list option"

definition raise_for_status :: "nat \<Rightarrow> bool" where
  "raise_for_status status \<longleftrightarrow> 400 \<le> status \<and> status < 600"

text \<open>\<open>requests.get(url)\<close> followed by \<open>raise_for_status()\<close>: the body, or the
  exception raised.\<close>

definition fetch :: "env \<Rightarrow> world \<Rightarrow> string \<Rightarrow> (error + string) \<times> world" where
  "fetch E w url =
     ((case http E (length (requests w)) url of
         ConnectionFailed \<Rightarrow> Inl RequestException
       | Response status body \<Rightarrow>
           if raise_for_status status then Inl (HTTPError status) else Inr body),
      w\<lparr>requests := requests w @ [url]\<rparr>)"

text \<open>Opening the target of a member fails when the sanitized name leaves a path
  that names a directory.\<close>

definition names_directory :: "string \<Rightarrow> bool" where
  "names_directory name \<longleftrightarrow> name = [] \<or> name = ''.'' \<or> name = ''..''"

text \<open>The extraction loop. An exception leaves the loop; the files written before
  it stay, and a target opened before a failing read stays empty.\<close>

fun extract_members :: "string \<Rightarrow> (string \<times> member_read) list \<Rightarrow> fs \<Rightarrow> fs \<times> error option" where
  "extract_members artist_dir [] files = (files, None)"
| "extract_members artist_dir ((member, source) # members) files =
     (let original_name = basename member
      in if original_name = [] then extract_members artist_dir members files
         else
           (let sanitized_name = sanitize_filename original_name;
                target_path = path_join artist_dir sanitized_name
            in case source of
                 Open_fails \<Rightarrow> (files, Some BadZipFile)
               | Read_fails \<Rightarrow>
                   if names_directory sanitized_name then (files, Some OSError)
                   else (write_file files target_path [], Some BadZipFile)
               | Content data \<Rightarrow>
                   if names_directory sanitized_name then (files, Some OSError)
                   else extract_members artist_dir members (write_file files target_path data)))"

definition export_url :: "string \<Rightarrow> string \<Rightarrow> string" where
  "export_url sheet_id format = sheet_prefix @ sheet_id @ ''/export?format='' @ format"

definition download_exports :: "env \<Rightarrow> string \<Rightarrow> string \<Rightarrow> world \<Rightarrow> world" where
  "download_exports E sheet_id artist_dir w =
     (let xlsx_url = export_url sheet_id ''xlsx'';
          xlsx_path = path_join artist_dir ''spreadsheet.xlsx'';
          (r, w) = fetch E w xlsx_url;
          w = (case r of
                 Inr body \<Rightarrow> w\<lparr>disk := write_file (disk w) xlsx_path body\<rparr>
               | Inl e \<Rightarrow>
                   if e = HTTPError 401 then w\<lparr>disk := log_down_host xlsx_url (disk w)\<rparr> else w);
          zip_url = export_url sheet_id ''zip'';
          zip_path = path_join artist_dir ''spreadsheet.zip'';
          (r, w) = fetch E w zip_url
      in case r of
           Inl e \<Rightarrow>
             if e = HTTPError 401 then w\<lparr>disk := log_down_host zip_url (disk w)\<rparr> else w
         | Inr body \<Rightarrow>
             (let w = w\<lparr>disk := write_file (disk w) zip_path body\<rparr>
              in case zip_read E body of
                   None \<Rightarrow> w
                 | Some members \<Rightarrow> w\<lparr>disk := fst (extract_members artist_dir members (disk w))\<rparr>))"

section \<open>Catalog store\<close>

definition REMOTE_CSV_URL :: string where
  "REMOTE_CSV_URL = ''https://sheets.artistgrid.cx/artists.csv''"

definition CACHE_FILE :: string where
  "CACHE_FILE = ''last_artists.csv''"

definition EXPORT_DIR :: string where
  "EXPORT_DIR = ''downloads''"

definition save_csv :: "env \<Rightarrow> pydict \<Rightarrow> string \<Rightarrow> fs \<Rightarrow> fs" where
  "save_csv E data path files =
     write_file files path
       (writerow E [Str ''artist'', Str ''url'']
        @ concat (map (\<lambda>(artist, url). writerow E [artist, url]) data))"

text \<open>The dictionary comprehension of \<open>load_cached_csv\<close>, row by row.\<close>

fun cached_rows :: "pydict \<Rightarrow> row list \<Rightarrow> error + pydict" where
  "cached_rows d [] = Inr d"
| "cached_rows d (row # rows) =
     (case row ''artist'' of
        None \<Rightarrow> Inl (KeyError ''artist'')
      | Some artist \<Rightarrow>
          (case row ''url'' of
             None \<Rightarrow> Inl (KeyError ''url'')
           | Some url \<Rightarrow> cached_rows (AList.update artist url d) rows))"

definition load_cached_csv :: "env \<Rightarrow> fs \<Rightarrow> string \<Rightarrow> error + pydict" where
  "load_cached_csv E files path =
     (case map_of files path of
        None \<Rightarrow> Inr []
      | Some text \<Rightarrow>
          (case dict_reader E text of
             Inl e \<Rightarrow> Inl e
           | Inr rows \<Rightarrow> cached_rows [] rows))"

section \<open>The cycle\<close>

text \<open>\<open>urllib.parse.quote\<close> with its default safe character \<open>/\<close>: the unreserved
  ASCII characters stay, every other byte of the UTF-8 encoding is written \<open>%XX\<close>.\<close>

definition hex_byte :: "nat \<Rightarrow> string" where
  "hex_byte n = [CHR ''%'', ''0123456789ABCDEF'' ! (n div 16), ''0123456789ABCDEF'' ! (n mod 16)]"

definition quote_char :: "char \<Rightarrow> string" where
  "quote_char c =
     (if is_lower c \<or> is_upper c \<or> is_digit c \<or> c \<in> set ''_.-~/'' then [c]
      else if (of_char c :: nat) < 128 then hex_byte (of_char c)
      else hex_byte (192 + of_char c div 64) @ hex_byte (128 + of_char c mod 64))"

definition quote :: "string \<Rightarrow> string" where
  "quote s = concat (map quote_char s)"

definition public_url :: "string \<Rightarrow> string \<Rightarrow> string" where
  "public_url artist filename =
     ''https://trackers.artistgrid.cx/downloads/'' @ quote artist @ ''/'' @ quote filename"

text \<open>
  The loop over the changed entries. It returns the world and the files collected for
  archiving, or the exception that leaves the loop (a key or a value that is \<open>None\<close>
  raises TypeError; the entries of a parsed catalog are never \<open>None\<close>).
\<close>

fun process_updates ::
  "env \<Rightarrow> pydict \<Rightarrow> world \<Rightarrow> (string \<times> string) list \<Rightarrow> world \<times> (error + (string \<times> string) list)" where
  "process_updates E [] w files_to_archive = (w, Inr files_to_archive)"
| "process_updates E ((artist, url) # rest) w files_to_archive =
     (case url of
        PyNone \<Rightarrow> (w, Inl TypeError)
      | Str u \<Rightarrow>
          (case extract_sheet_id u of
             None \<Rightarrow> process_updates E rest w files_to_archive
           | Some sheet_id \<Rightarrow>
               (case artist of
                  PyNone \<Rightarrow> (w, Inl TypeError)
                | Str a \<Rightarrow>
                    (let artist_dir = path_join EXPORT_DIR a;
                         w = download_exports E sheet_id artist_dir w;
                         found = map (\<lambda>filename. (path_join artist_dir filename, public_url a filename))
                                   (list_files (disk w) artist_dir)
                     in process_updates E rest w (files_to_archive @ found)))))"

text \<open>
  How a cycle ends: \<open>Aborted\<close> is the early return of the \<open>except\<close> branch,
  \<open>Crashed\<close> an exception that leaves \<open>run_once\<close>, \<open>Completed\<close> the normal end, with
  the archive tasks started (file path and public URL), which run on their own.
\<close>

datatype outcome = Aborted error | Crashed error | Completed "(string \<times> string) list"

definition run_once :: "env \<Rightarrow> world \<Rightarrow> world \<times> outcome" where
  "run_once E w =
     (let (r, w) = fetch E w REMOTE_CSV_URL
      in case (case r of Inl e \<Rightarrow> Inl e | Inr text \<Rightarrow> parse_csv (dict_reader E) text) of
           Inl e \<Rightarrow> (w, Aborted e)
         | Inr remote_data \<Rightarrow>
             (case load_cached_csv E (disk w) CACHE_FILE of
                Inl e \<Rightarrow> (w, Crashed e)
              | Inr cached_data \<Rightarrow>
                  (let changed = to_update remote_data cached_data
                   in if changed = []
                      then (w\<lparr>disk := save_csv E remote_data CACHE_FILE (disk w)\<rparr>, Completed [])
                      else
                        (case process_updates E changed w [] of
                           (w, Inl e) \<Rightarrow> (w, Crashed e)
                         | (w, Inr files_to_archive) \<Rightarrow>
                             (w\<lparr>disk := save_csv E remote_data CACHE_FILE (disk w)\<rparr>,
                              Completed files_to_archive)))))"

section \<open>Predicates used in the proofs\<close>

text \<open>\<open>row_stores row k v\<close>: the row is selected, its fields are strings, its URL is
  accepted and its name does not normalize to the empty string; \<open>k\<close> and \<open>v\<close> are the
  key and the value that come of them.\<close>

definition row_stores :: "row \<Rightarrow> pyval \<Rightarrow> pyval \<Rightarrow> bool" where
  "row_stores row k v \<longleftrightarrow>
     (\<exists>best name u c. row_get row ''Best'' (Str []) = Str best \<and> py_lower (py_strip best) = ''yes''
        \<and> row ''Artist Name'' = Some (Str name) \<and> row ''URL'' = Some (Str u)
        \<and> clean_url u = Some c \<and> normalize_artist_name name \<noteq> []
        \<and> k = Str (normalize_artist_name name) \<and> v = Str c)"

text \<open>The text of the failure log (empty when there is no file), and whether an answer
  of the network is a response with status 401.\<close>

definition log_text :: "fs \<Rightarrow> string" where
  "log_text files = (case map_of files ''host/down.txt'' of None \<Rightarrow> [] | Some t \<Rightarrow> t)"

definition unauthorized :: "http_result \<Rightarrow> bool" where
  "unauthorized r = (case r of ConnectionFailed \<Rightarrow> False | Response status body \<Rightarrow> status = 401)"

section \<open>A concrete environment\<close>

text \<open>An environment of \<open>archive_file\<close> to evaluate it on concrete inputs: dates are
  day numbers, with the two date strings that \<open>strptime\<close> parses, and the answer of
  the archive service is given.\<close>

definition example_env :: "(string \<Rightarrow> error + string) \<Rightarrow> nat archive_env" where
  "example_env save =
     \<lparr>sha256_hex = (\<lambda>data. ''#'' @ data),
      strptime = (\<lambda>s. if s = ''2026-11-03'' then Some 3
                    else if s = ''2026-11-02'' then Some 2 else None),
      strftime = (\<lambda>d. if d = 3 then ''2026-11-03'' else ''2026-11-02''),
      date_at_check = 3, randint = 9, wayback_save = save, date_at_record = 3\<rparr>"

text \<open>An environment of a cycle: \<open>csv.writer\<close> on fields that need no quoting, no
  archive to unpack, and a reader that knows the rows of three texts: the empty text
  has none, the text of the example cache has one, and the example payload has one
  selected row and no URL column. On any other text the reader gives an error; no
  theorem below evaluates it there.\<close>

definition csv_field :: "pyval \<Rightarrow> string" where
  "csv_field v = (case v of PyNone \<Rightarrow> [] | Str s \<Rightarrow> s)"

definition example_writerow :: "pyval list \<Rightarrow> string" where
  "example_writerow cells =
     (case cells of
        [] \<Rightarrow> []
      | f # fs \<Rightarrow> csv_field f @ concat (map (\<lambda>g. '','' @ csv_field g) fs))
     @ [CHR 0x0D, CHR 0x0A]"

definition example_cycle :: "(nat \<Rightarrow> string \<Rightarrow> http_result) \<Rightarrow> (string \<Rightarrow> error + row list) \<Rightarrow> env" where
  "example_cycle net reader =
     \<lparr>http = net, dict_reader = reader, writerow = example_writerow, zip_read = (\<lambda>body. None)\<rparr>"

definition example_id :: string where
  "example_id = replicate 44 CHR ''a''"

definition example_cache :: string where
  "example_cache = ''artist,url'' @ [CHR 0x0D, CHR 0x0A]
                   @ ''ann,'' @ sheet_prefix @ example_id @ ''/'' @ [CHR 0x0D, CHR 0x0A]"

definition example_payload :: string where
  "example_payload = ''Best,Artist Name'' @ [CHR 0x0D, CHR 0x0A] @ ''yes,Ann'' @ [CHR 0x0D, CHR 0x0A]"

definition example_reader :: "string \<Rightarrow> error + row list" where
  "example_reader t =
     (if t = [] then Inr []
      else if t = example_cache
      then Inr [[''artist'' \<mapsto> Str ''ann'', ''url'' \<mapsto> Str (sheet_prefix @ example_id @ ''/'')]]
      else if t = example_payload
      then Inr [[''Best'' \<mapsto> Str ''yes'', ''Artist Name'' \<mapsto> Str ''Ann'']]
      else Inl CsvError)"

section \<open>Facts about the search\<close>

text \<open>\<open>re_search\<close> returns the match at the least start position that has one.\<close>

lemma re_search_Some_iff:
  "re_search m s = Some g \<longleftrightarrow>
     (\<exists>i\<le>length s. m (drop i s) = Some g \<and> (\<forall>j<i. m (drop j s) = None))"
proof (induction s)
  case Nil
  then show ?case by simp
next
  case (Cons c cs)
  show ?case
  proof (cases "m (c # cs)")
    case None
    have "(\<exists>i\<le>length (c # cs). m (drop i (c # cs)) = Some g \<and> (\<forall>j<i. m (drop j (c # cs)) = None))
      \<longleftrightarrow> (\<exists>i\<le>length cs. m (drop i cs) = Some g \<and> (\<forall>j<i. m (drop j cs) = None))"
      (is "?L \<longleftrightarrow> ?R")
    proof
      assume ?L
      then obtain i where i: "i \<le> length (c # cs)" "m (drop i (c # cs)) = Some g"
        "\<forall>j<i. m (drop j (c # cs)) = None" by blast
      with None obtain k where k: "i = Suc k" by (cases i) auto
      have "\<forall>j<k. m (drop j cs) = None"
      proof (intro allI impI)
        fix j assume "j < k"
        then have "Suc j < i" using k by simp
        with i(3) have "m (drop (Suc j) (c # cs)) = None" by blast
        then show "m (drop j cs) = None" by simp
      qed
      with i k show ?R by auto
    next
      assume ?R
      then obtain i where i: "i \<le> length cs" "m (drop i cs) = Some g"
        "\<forall>j<i. m (drop j cs) = None" by blast
      have "\<forall>j<Suc i. m (drop j (c # cs)) = None"
      proof (intro allI impI)
        fix j assume "j < Suc i"
        then show "m (drop j (c # cs)) = None"
          using None i(3) by (cases j) auto
      qed
      with i show ?L by (intro exI[of _ "Suc i"]) auto
    qed
    with None Cons.IH show ?thesis by simp
  next
    case (Some h)
    have "(\<exists>i\<le>length (c # cs). m (drop i (c # cs)) = Some g \<and> (\<forall>j<i. m (drop j (c # cs)) = None))
      \<longleftrightarrow> h = g" (is "?L \<longleftrightarrow> _")
    proof
      assume ?L
      then obtain i where i: "m (drop i (c # cs)) = Some g"
        "\<forall>j<i. m (drop j (c # cs)) = None" by blast
      have "i = 0"
      proof (rule ccontr)
        assume "i \<noteq> 0"
        then have "m (drop 0 (c # cs)) = None" using i(2) by blast
        with Some show False by simp
      qed
      with i Some show "h = g" by simp
    next
      assume "h = g"
      with Some show ?L by (intro exI[of _ 0]) auto
    qed
    with Some show ?thesis by simp
  qed
qed

lemma re_search_None_iff:
  "re_search m s = None \<longleftrightarrow> (\<forall>i\<le>length s. m (drop i s) = None)"
proof -
  have "re_search m s = None \<longleftrightarrow> \<not> (\<exists>g. re_search m s = Some g)" by auto
  also have "\<dots> \<longleftrightarrow> \<not> (\<exists>g. \<exists>i\<le>length s. m (drop i s) = Some g \<and> (\<forall>j<i. m (drop j s) = None))"
    by (simp add: re_search_Some_iff)
  also have "\<dots> \<longleftrightarrow> (\<forall>i\<le>length s. m (drop i s) = None)"
  proof
    assume a: "\<not> (\<exists>g. \<exists>i\<le>length s. m (drop i s) = Some g \<and> (\<forall>j<i. m (drop j s) = None))"
    show "\<forall>i\<le>length s. m (drop i s) = None"
    proof (intro allI)
      fix i show "i \<le> length s \<longrightarrow> m (drop i s) = None"
      proof (induction i rule: less_induct)
        case (less i)
        show ?case
        proof
          assume le: "i \<le> length s"
          have prev: "\<forall>j<i. m (drop j s) = None" using less le by auto
          show "m (drop i s) = None"
          proof (cases "m (drop i s)")
            case None then show ?thesis .
          next
            case (Some g)
            with le prev a show ?thesis by blast
          qed
        qed
      qed
    qed
  next
    assume "\<forall>i\<le>length s. m (drop i s) = None"
    then show "\<not> (\<exists>g. \<exists>i\<le>length s. m (drop i s) = Some g \<and> (\<forall>j<i. m (drop j s) = None))"
      by auto
  qed
  finally show ?thesis .
qed

text \<open>A match of the shape at the start of a text, and the first match in a text, as
  decompositions of the text.\<close>

lemma match_here_Some_iff:
  "match_here pre n post s = Some g \<longleftrightarrow>
     (\<exists>rest. s = pre @ g @ post @ rest \<and> length g = n \<and> list_all id_char g)"
proof
  assume a: "match_here pre n post s = Some g"
  then have g: "g = take n (drop (length pre) s)" and p: "take (length pre) s = pre"
    and l: "length g = n" and c: "list_all id_char g"
    and q: "take (length post) (drop (length pre + n) s) = post"
    by (auto simp: match_here_def Let_def split: if_splits)
  have 1: "s = pre @ drop (length pre) s" using p by (metis append_take_drop_id)
  have 2: "drop (length pre) s = g @ drop n (drop (length pre) s)"
    using g by (metis append_take_drop_id)
  have 3: "drop n (drop (length pre) s) = drop (length pre + n) s" by (simp add: add.commute)
  have 4: "drop (length pre + n) s = post @ drop (length post) (drop (length pre + n) s)"
    using q by (metis append_take_drop_id)
  have "s = pre @ g @ post @ drop (length post) (drop (length pre + n) s)"
    using 1 2 3 4 by metis
  with l c show "\<exists>rest. s = pre @ g @ post @ rest \<and> length g = n \<and> list_all id_char g"
    by blast
next
  assume "\<exists>rest. s = pre @ g @ post @ rest \<and> length g = n \<and> list_all id_char g"
  then show "match_here pre n post s = Some g"
    by (auto simp: match_here_def Let_def)
qed

lemma search_match_Some_iff:
  "re_search (match_here pre n post) s = Some g \<longleftrightarrow>
     (\<exists>a b. s = a @ pre @ g @ post @ b \<and> length g = n \<and> list_all id_char g
        \<and> (\<forall>a' g' b'. s = a' @ pre @ g' @ post @ b' \<and> length g' = n \<and> list_all id_char g'
              \<longrightarrow> length a \<le> length a'))"
  (is "?L \<longleftrightarrow> ?R")
proof
  assume ?L
  then obtain i where i: "i \<le> length s" "match_here pre n post (drop i s) = Some g"
    "\<forall>j<i. match_here pre n post (drop j s) = None"
    unfolding re_search_Some_iff by blast
  from i(2) obtain b where b: "drop i s = pre @ g @ post @ b" "length g = n" "list_all id_char g"
    unfolding match_here_Some_iff by blast
  have s: "s = take i s @ pre @ g @ post @ b" using b(1) by (metis append_take_drop_id)
  have least: "length (take i s) \<le> length a'"
    if "s = a' @ pre @ g' @ post @ b'" "length g' = n" "list_all id_char g'" for a' g' b'
  proof (rule ccontr)
    assume "\<not> length (take i s) \<le> length a'"
    then have "length a' < i" using i(1) by simp
    with i(3) have "match_here pre n post (drop (length a') s) = None" by blast
    moreover have "drop (length a') s = pre @ g' @ post @ b'" using that(1) by simp
    ultimately show False using that(2,3) match_here_Some_iff[of pre n post "drop (length a') s" g']
      by auto
  qed
  show ?R
    using s b(2,3) least by blast
next
  assume ?R
  then obtain a b where ab: "s = a @ pre @ g @ post @ b" "length g = n" "list_all id_char g"
    and least: "\<forall>a' g' b'. s = a' @ pre @ g' @ post @ b' \<and> length g' = n \<and> list_all id_char g'
              \<longrightarrow> length a \<le> length a'" by blast
  have 1: "length a \<le> length s" using ab(1) by simp
  have 2: "match_here pre n post (drop (length a) s) = Some g"
    using ab by (simp add: match_here_Some_iff)
  have 3: "\<forall>j<length a. match_here pre n post (drop j s) = None"
  proof (intro allI impI)
    fix j assume j: "j < length a"
    show "match_here pre n post (drop j s) = None"
    proof (cases "match_here pre n post (drop j s)")
      case None then show ?thesis .
    next
      case (Some g')
      then obtain b' where b': "drop j s = pre @ g' @ post @ b'" "length g' = n" "list_all id_char g'"
        unfolding match_here_Some_iff by blast
      have "s = take j s @ pre @ g' @ post @ b'" using b'(1) by (metis append_take_drop_id)
      with least b'(2,3) have "length a \<le> length (take j s)" by blast
      with j show ?thesis by simp
    qed
  qed
  show ?L unfolding re_search_Some_iff using 1 2 3 by blast
qed

lemma search_match_None_iff:
  "re_search (match_here pre n post) s = None \<longleftrightarrow>
     \<not> (\<exists>a g b. s = a @ pre @ g @ post @ b \<and> length g = n \<and> list_all id_char g)"
  (is "?L \<longleftrightarrow> ?R")
proof
  assume l: ?L
  show ?R
  proof
    assume "\<exists>a g b. s = a @ pre @ g @ post @ b \<and> length g = n \<and> list_all id_char g"
    then obtain a g b where ab: "s = a @ pre @ g @ post @ b" "length g = n" "list_all id_char g"
      by blast
    have "length a \<le> length s" using ab(1) by simp
    with l have "match_here pre n post (drop (length a) s) = None"
      unfolding re_search_None_iff by blast
    moreover have "match_here pre n post (drop (length a) s) = Some g"
      using ab by (simp add: match_here_Some_iff)
    ultimately show False by simp
  qed
next
  assume r: ?R
  show ?L unfolding re_search_None_iff
  proof (intro allI impI)
    fix i assume "i \<le> length s"
    show "match_here pre n post (drop i s) = None"
    proof (cases "match_here pre n post (drop i s)")
      case None then show ?thesis .
    next
      case (Some g)
      then obtain b where b: "drop i s = pre @ g @ post @ b" "length g = n" "list_all id_char g"
        unfolding match_here_Some_iff by blast
      have "s = take i s @ pre @ g @ post @ b" using b(1) by (metis append_take_drop_id)
      with b(2,3) r show ?thesis by blast
    qed
  qed
qed

text \<open>In a canonical URL the only place where \<open>/d/\<close> starts is the end of the prefix.\<close>

lemma extract_of_canonical:
  assumes "length g = 44" "list_all id_char g"
  shows "extract_sheet_id (sheet_prefix @ g @ ''/'') = Some g"
  using assms
  by (simp add: extract_sheet_id_def sheet_prefix_def match_here_def)

section \<open>Facts about parsing\<close>

lemma set_update_subset: "set (AList.update k v al) \<subseteq> insert (k, v) (set al)"
  by (induction al) auto

lemma parse_row_step:
  assumes "parse_row result row = Inr result'"
  shows "(result' = result \<and> \<not> (\<exists>k v. row_stores row k v))
       \<or> (\<exists>k v. row_stores row k v \<and> result' = AList.update k v result)"
  using assms
  by (auto simp: parse_row_def row_stores_def Let_def
           split: option.splits pyval.splits if_splits)

lemma parse_rows_keys:
  "parse_rows result rows = Inr d \<Longrightarrow>
     fst ` set d = fst ` set result \<union> {k. \<exists>row\<in>set rows. \<exists>v. row_stores row k v}"
proof (induction rows arbitrary: result)
  case Nil
  then show ?case by simp
next
  case (Cons row rows)
  from Cons.prems obtain r where r: "parse_row result row = Inr r" "parse_rows r rows = Inr d"
    by (auto split: sum.splits)
  have step: "fst ` set r = fst ` set result \<union> {k. \<exists>v. row_stores row k v}"
  proof -
    from parse_row_step[OF r(1)] show ?thesis
    proof
      assume "r = result \<and> \<not> (\<exists>k v. row_stores row k v)"
      then show ?thesis by auto
    next
      assume "\<exists>k v. row_stores row k v \<and> r = AList.update k v result"
      then obtain k v where kv: "row_stores row k v" "r = AList.update k v result" by blast
      have "{k'. \<exists>v'. row_stores row k' v'} = {k}"
        using kv(1) by (auto simp: row_stores_def)
      with kv(2) show ?thesis by (simp add: dom_update)
    qed
  qed
  from Cons.IH[OF r(2)] step show ?case by auto
qed

lemma parse_rows_entries:
  "parse_rows result rows = Inr d \<Longrightarrow> (k, v) \<in> set d \<Longrightarrow>
     (k, v) \<in> set result \<or> (\<exists>row\<in>set rows. row_stores row k v)"
proof (induction rows arbitrary: result)
  case Nil
  then show ?case by simp
next
  case (Cons row rows)
  from Cons.prems(1) obtain r where r: "parse_row result row = Inr r" "parse_rows r rows = Inr d"
    by (auto split: sum.splits)
  from Cons.IH[OF r(2) Cons.prems(2)]
  have "(k, v) \<in> set r \<or> (\<exists>row\<in>set rows. row_stores row k v)" .
  moreover have "(k, v) \<in> set r \<Longrightarrow> (k, v) \<in> set result \<or> row_stores row k v"
    using parse_row_step[OF r(1)] set_update_subset by fastforce
  ultimately show ?case by auto
qed

lemma parse_rows_distinct:
  "parse_rows result rows = Inr d \<Longrightarrow> distinct (map fst result) \<Longrightarrow> distinct (map fst d)"
proof (induction rows arbitrary: result)
  case Nil
  then show ?case by simp
next
  case (Cons row rows)
  from Cons.prems(1) obtain r where r: "parse_row result row = Inr r" "parse_rows r rows = Inr d"
    by (auto split: sum.splits)
  have "distinct (map fst r)"
    using parse_row_step[OF r(1)] Cons.prems(2) by (auto simp: distinct_update)
  from Cons.IH[OF r(2) this] show ?case .
qed

text \<open>On code points below U+0100, a name with no ASCII letter, no digit and no dollar
  sign normalizes to the empty string.\<close>

lemma normalize_no_alnum:
  assumes "\<forall>c\<in>set name. \<not> is_lower c \<and> \<not> is_upper c \<and> \<not> is_digit c \<and> c \<noteq> CHR ''$''"
  shows "normalize_artist_name name = []"
proof -
  define f where "f = (\<lambda>c. if lower_char c = CHR ''$'' then CHR ''s'' else lower_char c)"
  have norm: "normalize_artist_name name = filter (\<lambda>c. is_lower c \<or> is_digit c) (map f name)"
    by (simp add: normalize_artist_name_def py_lower_def replace_char_def f_def comp_def)
  have key: "\<not> (is_lower (f c) \<or> is_digit (f c))" if "c \<in> set name" for c
  proof -
    from assms that have c: "\<not> is_lower c" "\<not> is_upper c" "\<not> is_digit c" "c \<noteq> CHR ''$''"
      by auto
    show ?thesis
    proof (cases "in_range 192 222 c \<and> of_char c \<noteq> (215 :: nat)")
      case True
      then have "lower_char c = char_of (of_char c + (32 :: nat))"
        by (simp add: lower_char_def)
      moreover have "(of_char (char_of (of_char c + (32 :: nat)) :: char) :: nat) = of_char c + 32"
        using True by (simp add: in_range_def)
      ultimately have "(of_char (lower_char c) :: nat) \<ge> 224" using True
        by (simp add: in_range_def)
      then have "lower_char c \<noteq> CHR ''$''" "\<not> is_lower (lower_char c)" "\<not> is_digit (lower_char c)"
        by (auto simp: is_lower_def is_digit_def in_range_def)
      then show ?thesis by (simp add: f_def)
    next
      case False
      then have "lower_char c = c" using c(2) by (auto simp: lower_char_def)
      with c show ?thesis by (simp add: f_def)
    qed
  qed
  show ?thesis unfolding norm filter_empty_conv using key by simp
qed

section \<open>Facts about the normalizer on all code points\<close>

text \<open>No run but the one of U+212A has a target below U+0080; so, U+0130 and U+212A
  apart, the lowercase of a code point that is no ASCII letter, digit or dollar sign
  holds nothing that the normalizer keeps. On the code points of a \<open>string\<close> the
  normalizer on all code points is \<open>normalize_artist_name\<close>.\<close>

lemma lower_runs_targets:
  "list_all (\<lambda>(lo, hi, step, target). (lo = 8490 \<and> hi = 8490) \<or> 128 \<le> target) lower_runs"
  by (simp add: lower_runs_def)

lemma find_run_target:
  "list_all (\<lambda>(lo, hi, step, target). (lo = 8490 \<and> hi = 8490) \<or> 128 \<le> target) runs \<Longrightarrow>
     find_run runs c = Some t \<Longrightarrow> c = 8490 \<or> 128 \<le> t"
  by (induction runs) (auto split: if_splits)

lemma lower_point_plain:
  assumes "\<not> plain_point c" "c \<noteq> 304" "c \<noteq> 8490"
  shows "\<forall>x\<in>set (lower_point c). \<not> name_point x \<and> x \<noteq> 36"
proof (cases "c < 256")
  case True
  with assms(1) show ?thesis
    by (auto simp: lower_point_def plain_point_def name_point_def)
next
  case False
  show ?thesis
  proof (cases "find_run lower_runs c")
    case None
    with False assms show ?thesis
      by (auto simp: lower_point_def plain_point_def name_point_def)
  next
    case (Some t)
    with find_run_target[OF lower_runs_targets Some] assms(3) have "128 \<le> t" by simp
    with False assms Some show ?thesis
      by (auto simp: lower_point_def name_point_def)
  qed
qed

lemma lower_points_plain:
  assumes "\<forall>c\<in>set name. \<not> plain_point c \<and> c \<noteq> 304 \<and> c \<noteq> 8490"
  shows "\<forall>x\<in>set (lower_points final_sigma before name). \<not> name_point x \<and> x \<noteq> 36"
  using assms
proof (induction name arbitrary: before)
  case Nil
  then show ?case by simp
next
  case (Cons c rest)
  have c: "\<not> plain_point c" "c \<noteq> 304" "c \<noteq> 8490" using Cons.prems by auto
  have r: "\<forall>x\<in>set (lower_points final_sigma (before @ [c]) rest). \<not> name_point x \<and> x \<noteq> 36"
    using Cons.IH Cons.prems by simp
  have h: "\<forall>x\<in>set (if c = 931 then [if final_sigma before rest then 962 else 963] else lower_point c).
             \<not> name_point x \<and> x \<noteq> 36"
    using lower_point_plain[OF c] by (auto simp: name_point_def)
  show ?case using h r by auto
qed

lemma normalize_code_points_plain:
  assumes "\<forall>c\<in>set name. \<not> plain_point c \<and> c \<noteq> 304 \<and> c \<noteq> 8490"
  shows "normalize_code_points final_sigma name = []"
  using lower_points_plain[OF assms, of final_sigma "[]"]
  by (auto simp: normalize_code_points_def Let_def filter_empty_conv name_point_def)

lemma of_char_below: "(of_char c :: nat) < 256"
proof -
  have "(of_char c :: nat) mod 256 = of_char c" by simp
  then show ?thesis by (metis mod_less_divisor zero_less_numeral)
qed

lemma lower_point_of_char: "lower_point (of_char c) = [of_char (lower_char c)]"
proof -
  let ?n = "of_char c :: nat"
  have b: "?n < 256" by (rule of_char_below)
  show ?thesis
  proof (cases "(65 \<le> ?n \<and> ?n \<le> 90) \<or> (192 \<le> ?n \<and> ?n \<le> 222 \<and> ?n \<noteq> 215)")
    case True
    then have "?n + 32 < 256" by auto
    then have "(of_char (char_of (?n + 32) :: char) :: nat) = ?n + 32" by simp
    with True b show ?thesis
      by (auto simp: lower_point_def lower_char_def is_upper_def in_range_def)
  next
    case False
    with b show ?thesis
      by (auto simp: lower_point_def lower_char_def is_upper_def in_range_def)
  qed
qed

lemma lower_points_of_char:
  "lower_points final_sigma before (map of_char s) = map of_char (py_lower s)"
proof (induction s arbitrary: before)
  case Nil
  then show ?case by (simp add: py_lower_def)
next
  case (Cons c s)
  have "(of_char c :: nat) \<noteq> 931" using of_char_below[of c] by linarith
  with Cons.IH[of "before @ [of_char c]"] show ?case
    by (simp add: py_lower_def lower_point_of_char)
qed

lemma normalize_code_points_of_char:
  "normalize_code_points final_sigma (map of_char name) = map of_char (normalize_artist_name name)"
proof -
  have d: "((of_char c :: nat) = 36) = (c = CHR ''$'')" for c
  proof -
    have "(of_char c :: nat) = of_char CHR ''$'' \<longleftrightarrow> c = CHR ''$''" by (rule of_char_eq_iff)
    then show ?thesis by simp
  qed
  have r: "map (\<lambda>c :: nat. if c = 36 then 115 else c) (map of_char xs)
             = map of_char (replace_char CHR ''$'' CHR ''s'' xs)" for xs :: string
    by (induction xs) (simp_all add: replace_char_def d)
  have f: "filter name_point (map of_char xs :: nat list) = map of_char (filter (\<lambda>c. is_lower c \<or> is_digit c) xs)"
    for xs :: string
    by (induction xs) (auto simp: name_point_def is_lower_def is_digit_def in_range_def)
  have "normalize_code_points final_sigma (map of_char name)
          = filter name_point (map (\<lambda>c :: nat. if c = 36 then 115 else c)
              (lower_points final_sigma [] (map of_char name)))"
    unfolding normalize_code_points_def Let_def ..
  also have "\<dots> = filter name_point (map (\<lambda>c :: nat. if c = 36 then 115 else c)
              (map of_char (py_lower name)))"
    by (simp only: lower_points_of_char)
  also have "\<dots> = filter name_point (map of_char (replace_char CHR ''$'' CHR ''s'' (py_lower name)))"
    by (simp only: r)
  also have "\<dots> = map of_char (filter (\<lambda>c. is_lower c \<or> is_digit c)
              (replace_char CHR ''$'' CHR ''s'' (py_lower name)))"
    by (rule f)
  also have "\<dots> = map of_char (normalize_artist_name name)"
    unfolding normalize_artist_name_def Let_def ..
  finally show ?thesis .
qed

section \<open>Facts about metadata records\<close>

lemma py_dict_distinct_aux:
  "distinct (map fst acc) \<Longrightarrow>
     distinct (map fst (foldl (\<lambda>d (k, v). AList.update k v d) acc ps))"
  by (induction ps arbitrary: acc) (auto simp: distinct_update)

lemma load_metadata_distinct: "distinct (map fst (load_metadata files file_path))"
  by (auto simp: load_metadata_def py_dict_def Let_def py_dict_distinct_aux split: option.splits)

lemma two_key_dict:
  assumes "distinct (map fst m)" "fst ` set m \<subseteq> {a, b}" "a \<noteq> b"
  shows "AList.update b y (AList.update a x m) = [(a, x), (b, y)]
       \<or> AList.update b y (AList.update a x m) = [(b, y), (a, x)]"
proof (cases m)
  case Nil
  then show ?thesis using assms by simp
next
  case (Cons p ps)
  note m = Cons
  show ?thesis
  proof (cases ps)
    case Nil
    with m assms show ?thesis by (cases p) auto
  next
    case (Cons q qs)
    note ps = Cons
    have "qs = []"
    proof (cases qs)
      case Nil then show ?thesis .
    next
      case (Cons r rs)
      with m ps assms have "distinct [fst p, fst q, fst r]" "{fst p, fst q, fst r} \<subseteq> {a, b}"
        by auto
      then have False by (auto; metis)
      then show ?thesis ..
    qed
    with m ps assms show ?thesis by (cases p; cases q) auto
  qed
qed

section \<open>Facts about the failure log\<close>

text \<open>Only \<open>log_down_host\<close> changes the log: the files of a download are written under
  the export directory.\<close>

lemma log_text_write:
  "path \<noteq> ''host/down.txt'' \<Longrightarrow> log_text (write_file files path data) = log_text files"
  by (simp add: log_text_def write_file_def update_conv')

lemma log_text_log_down_host:
  "log_text (log_down_host url files) = log_text files @ url @ [CHR 0x0A]"
  by (simp add: log_text_def log_down_host_def append_file_def update_conv' split: option.splits)

lemma sanitize_no_slash: "CHR ''/'' \<notin> set (sanitize_filename n)"
  by (auto simp: sanitize_filename_def Let_def filename_char_def is_lower_def is_upper_def
        is_digit_def in_range_def)

lemma normalize_no_slash: "CHR ''/'' \<notin> set (normalize_artist_name name)"
  by (auto simp: normalize_artist_name_def Let_def is_lower_def is_digit_def in_range_def)

lemma export_path_not_log:
  assumes "CHR ''/'' \<notin> set artist" "CHR ''/'' \<notin> set name"
  shows "path_join (path_join EXPORT_DIR artist) name \<noteq> ''host/down.txt''"
proof -
  have a: "path_join EXPORT_DIR artist = ''downloads/'' @ artist"
    using assms(1) by (cases artist) (auto simp: path_join_def EXPORT_DIR_def)
  have "hd (path_join (''downloads/'' @ artist) name) = CHR ''d''"
    using assms(2) by (cases name) (auto simp: path_join_def)
  with a show ?thesis by auto
qed

lemma log_text_extract:
  assumes "CHR ''/'' \<notin> set artist"
  shows "log_text (fst (extract_members (path_join EXPORT_DIR artist) members files)) = log_text files"
proof (induction members arbitrary: files)
  case Nil
  then show ?case by simp
next
  case (Cons m ms)
  obtain member source where m: "m = (member, source)" by (cases m)
  have p: "path_join (path_join EXPORT_DIR artist) (sanitize_filename n) \<noteq> ''host/down.txt''" for n
    using export_path_not_log[OF assms sanitize_no_slash] .
  show ?case
    unfolding m
    by (cases source) (simp_all add: Let_def Cons.IH log_text_write p)
qed

section \<open>Facts about lists of pairs\<close>

lemma filter_eq_single:
  "distinct xs \<Longrightarrow> x \<in> set xs \<Longrightarrow> filter (\<lambda>y. y = x) xs = [x]"
  by (induction xs) (auto simp: filter_empty_conv)

lemma distinct_fst_pairs: "distinct (map fst xs) \<Longrightarrow> distinct xs"
  by (simp add: distinct_map)

lemma clean_url_shape:
  assumes "clean_url u = Some c"
  shows "\<exists>g. re_search (match_here sheet_prefix 44 []) u = Some g \<and> c = sheet_prefix @ g @ ''/''
            \<and> length g = 44 \<and> list_all id_char g"
proof -
  from assms obtain g where g: "re_search (match_here sheet_prefix 44 []) u = Some g"
    "c = sheet_prefix @ g @ ''/''"
    by (auto simp: clean_url_def split: option.splits)
  from g(1) have "length g = 44 \<and> list_all id_char g"
    unfolding search_match_Some_iff by blast
  with g show ?thesis by blast
qed

section \<open>URL cleaning\<close>

text \<open>
  Claim C2, as stated, at a concrete input: the identifier segment of this URL has 45
  characters of the class, not 44, yet \<open>clean_url\<close> accepts it and keeps the first 44.
  The pattern of \<open>clean_url\<close> ends with the group; nothing looks at what follows.
\<close>

theorem clean_url_longer_segment:
  "clean_url (sheet_prefix @ replicate 45 CHR ''a'' @ ''/edit'')
     = Some (sheet_prefix @ replicate 44 CHR ''a'' @ ''/'')"
  by code_simp

text \<open>
  Claim C2, amended. \<open>clean_url\<close> accepts a URL exactly when the URL holds, somewhere,
  the prefix \<open>https://docs.google.com/spreadsheets/d/\<close> followed at once by 44
  characters of \<open>[a-zA-Z0-9-_]\<close>; the identifier is the group of the leftmost such
  place, whatever follows it, and the canonical URL is the prefix, the identifier and
  \<open>/\<close>. A URL with no such place gives \<open>None\<close>, and a selected row with that URL leaves
  the catalog as it was.
\<close>

theorem clean_url_accepts:
  "(clean_url url = Some c \<longleftrightarrow>
      (\<exists>a g b. url = a @ sheet_prefix @ g @ b \<and> length g = 44 \<and> list_all id_char g
         \<and> c = sheet_prefix @ g @ ''/''
         \<and> (\<forall>a' g' b'. url = a' @ sheet_prefix @ g' @ b' \<and> length g' = 44 \<and> list_all id_char g'
               \<longrightarrow> length a \<le> length a')))
   \<and> (clean_url url = None \<longleftrightarrow>
        \<not> (\<exists>a g b. url = a @ sheet_prefix @ g @ b \<and> length g = 44 \<and> list_all id_char g))
   \<and> (row ''Best'' = Some (Str best) \<and> row ''Artist Name'' = Some (Str name)
        \<and> row ''URL'' = Some (Str url) \<and> clean_url url = None
        \<longrightarrow> parse_row result row = Inr result)"
proof (intro conjI)
  have "clean_url url = Some c \<longleftrightarrow>
      (\<exists>g. re_search (match_here sheet_prefix 44 []) url = Some g \<and> c = sheet_prefix @ g @ ''/'')"
    by (auto simp: clean_url_def split: option.splits)
  also have "\<dots> \<longleftrightarrow> (\<exists>a g b. url = a @ sheet_prefix @ g @ b \<and> length g = 44 \<and> list_all id_char g
         \<and> c = sheet_prefix @ g @ ''/''
         \<and> (\<forall>a' g' b'. url = a' @ sheet_prefix @ g' @ b' \<and> length g' = 44 \<and> list_all id_char g'
               \<longrightarrow> length a \<le> length a'))"
    unfolding search_match_Some_iff[of sheet_prefix 44 "[]" url] by auto
  finally show "clean_url url = Some c \<longleftrightarrow>
      (\<exists>a g b. url = a @ sheet_prefix @ g @ b \<and> length g = 44 \<and> list_all id_char g
         \<and> c = sheet_prefix @ g @ ''/''
         \<and> (\<forall>a' g' b'. url = a' @ sheet_prefix @ g' @ b' \<and> length g' = 44 \<and> list_all id_char g'
               \<longrightarrow> length a \<le> length a'))" .
next
  have "clean_url url = None \<longleftrightarrow> re_search (match_here sheet_prefix 44 []) url = None"
    by (auto simp: clean_url_def split: option.splits)
  also have "\<dots> \<longleftrightarrow> \<not> (\<exists>a g b. url = a @ sheet_prefix @ g @ b \<and> length g = 44 \<and> list_all id_char g)"
    unfolding search_match_None_iff[of sheet_prefix 44 "[]" url] by simp
  finally show "clean_url url = None \<longleftrightarrow>
        \<not> (\<exists>a g b. url = a @ sheet_prefix @ g @ b \<and> length g = 44 \<and> list_all id_char g)" .
next
  show "row ''Best'' = Some (Str best) \<and> row ''Artist Name'' = Some (Str name)
        \<and> row ''URL'' = Some (Str url) \<and> clean_url url = None
        \<longrightarrow> parse_row result row = Inr result"
    by (simp add: parse_row_def row_get_def Let_def)
qed

theorem clean_url_accepts_witness:
  "clean_url (sheet_prefix @ replicate 44 CHR ''a'' @ ''/edit'')
     = Some (sheet_prefix @ replicate 44 CHR ''a'' @ ''/'')
   \<and> clean_url ''https://docs.google.com/spreadsheets/d/short/edit'' = None
   \<and> parse_row []
        [''Best'' \<mapsto> Str ''yes'', ''Artist Name'' \<mapsto> Str ''Ann'',
         ''URL'' \<mapsto> Str ''https://docs.google.com/spreadsheets/d/short/edit'']
       = Inr []"
proof -
  let ?bad = "''https://docs.google.com/spreadsheets/d/short/edit''"
  let ?row = "[''Best'' \<mapsto> Str ''yes'', ''Artist Name'' \<mapsto> Str ''Ann'', ''URL'' \<mapsto> Str ?bad]"
  have ex: "\<exists>a g b. sheet_prefix @ replicate 44 CHR ''a'' @ ''/edit'' = a @ sheet_prefix @ g @ b
            \<and> length g = 44 \<and> list_all id_char g
            \<and> sheet_prefix @ replicate 44 CHR ''a'' @ ''/'' = sheet_prefix @ g @ ''/''
            \<and> (\<forall>a' g' b'. sheet_prefix @ replicate 44 CHR ''a'' @ ''/edit''
                    = a' @ sheet_prefix @ g' @ b' \<and> length g' = 44 \<and> list_all id_char g'
                  \<longrightarrow> length a \<le> length a')"
    by (intro exI[of _ "[]"] exI[of _ "replicate 44 CHR ''a''"] exI[of _ "''/edit''"])
       (simp add: list_all_iff id_char_def is_lower_def in_range_def)
  have 1: "clean_url (sheet_prefix @ replicate 44 CHR ''a'' @ ''/edit'')
             = Some (sheet_prefix @ replicate 44 CHR ''a'' @ ''/'')"
    by (rule iffD2[OF conjunct1[OF clean_url_accepts] ex])
  have 2: "clean_url ?bad = None" by code_simp
  have pre: "?row ''Best'' = Some (Str ''yes'') \<and> ?row ''Artist Name'' = Some (Str ''Ann'')
          \<and> ?row ''URL'' = Some (Str ?bad) \<and> clean_url ?bad = None"
    using 2 by simp
  have 3: "parse_row [] ?row = Inr []"
    by (rule mp[OF conjunct2[OF conjunct2[OF clean_url_accepts]] pre])
  show ?thesis by (intro conjI) (rule 1, rule 2, rule 3)
qed

section \<open>Identifier extraction\<close>

text \<open>
  Claim C10. For every URL that \<open>clean_url\<close> accepts with identifier \<open>g\<close>,
  \<open>extract_sheet_id\<close> of the canonical URL is \<open>g\<close>, never \<open>None\<close>; so the URL of every
  entry of a parsed catalog gives its document identifier back.
\<close>

theorem extract_clean_roundtrip:
  "(clean_url u = Some c \<longrightarrow>
      (\<exists>g. re_search (match_here sheet_prefix 44 []) u = Some g \<and> c = sheet_prefix @ g @ ''/''
            \<and> extract_sheet_id c = Some g))
   \<and> (parse_csv reader payload = Inr d \<and> (k, v) \<in> set d \<longrightarrow>
        (\<exists>c g. v = Str c \<and> extract_sheet_id c = Some g))"
proof (intro conjI impI)
  assume "clean_url u = Some c"
  from clean_url_shape[OF this] extract_of_canonical
  show "\<exists>g. re_search (match_here sheet_prefix 44 []) u = Some g \<and> c = sheet_prefix @ g @ ''/''
            \<and> extract_sheet_id c = Some g" by blast
next
  assume a: "parse_csv reader payload = Inr d \<and> (k, v) \<in> set d"
  then obtain rows where "parse_rows [] rows = Inr d"
    by (auto simp: parse_csv_def split: sum.splits)
  from parse_rows_entries[OF this, of k v] a obtain r where "row_stores r k v" by auto
  then obtain u c where c: "v = Str c" "clean_url u = Some c" by (auto simp: row_stores_def)
  from clean_url_shape[OF c(2)] extract_of_canonical c(1)
  show "\<exists>c g. v = Str c \<and> extract_sheet_id c = Some g" by blast
qed

theorem extract_clean_roundtrip_witness:
  "clean_url (''see '' @ sheet_prefix @ replicate 44 CHR ''a'' @ ''/edit'')
     = Some (sheet_prefix @ replicate 44 CHR ''a'' @ ''/'')
   \<and> extract_sheet_id (sheet_prefix @ replicate 44 CHR ''a'' @ ''/'') = Some (replicate 44 CHR ''a'')
   \<and> parse_csv (\<lambda>t. Inr [[''Best'' \<mapsto> Str ''Yes'', ''Artist Name'' \<mapsto> Str ''J$ Smith'',
                             ''URL'' \<mapsto> Str (sheet_prefix @ replicate 44 CHR ''a'' @ ''/edit'')]]) []
       = Inr [(Str ''jssmith'', Str (sheet_prefix @ replicate 44 CHR ''a'' @ ''/''))]
   \<and> (\<exists>g. extract_sheet_id (sheet_prefix @ replicate 44 CHR ''a'' @ ''/'') = Some g)"
proof -
  let ?u = "''see '' @ sheet_prefix @ replicate 44 CHR ''a'' @ ''/edit''"
  let ?c = "sheet_prefix @ replicate 44 CHR ''a'' @ ''/''"
  let ?reader = "\<lambda>t :: string. (Inr [[''Best'' \<mapsto> Str ''Yes'', ''Artist Name'' \<mapsto> Str ''J$ Smith'',
                 ''URL'' \<mapsto> Str (sheet_prefix @ replicate 44 CHR ''a'' @ ''/edit'')]] :: error + row list)"
  have 1: "clean_url ?u = Some ?c" by code_simp
  from mp[OF conjunct1[OF extract_clean_roundtrip] 1]
  obtain g where g: "?c = sheet_prefix @ g @ ''/''" "extract_sheet_id ?c = Some g" by auto
  from g(1) have "g = replicate 44 CHR ''a''" by simp
  with g(2) have 2: "extract_sheet_id ?c = Some (replicate 44 CHR ''a'')" by simp
  have 3: "parse_csv ?reader [] = Inr [(Str ''jssmith'', Str ?c)]" by code_simp
  have pre: "parse_csv ?reader [] = Inr [(Str ''jssmith'', Str ?c)]
        \<and> (Str ''jssmith'', Str ?c) \<in> set [(Str ''jssmith'', Str ?c)]"
    using 3 by simp
  from mp[OF conjunct2[OF extract_clean_roundtrip] pre]
  have 4: "\<exists>g. extract_sheet_id ?c = Some g" by auto
  show ?thesis by (intro conjI) (rule 1, rule 2, rule 3, rule 4)
qed

section \<open>Change detector\<close>

text \<open>
  Claim C1, as stated, at a concrete input: the cached catalog holds an entry that the
  remote catalog no longer has. The two are not equal as mappings, yet the change set
  is empty: the comprehension runs over the remote entries only.
\<close>

theorem to_update_misses_removed:
  "to_update [(Str ''a'', Str ''u'')] [(Str ''a'', Str ''u''), (Str ''b'', Str ''w'')] = []
   \<and> map_of [(Str ''a'', Str ''u'')] \<noteq> map_of [(Str ''a'', Str ''u''), (Str ''b'', Str ''w'')]"
proof
  show "to_update [(Str ''a'', Str ''u'')] [(Str ''a'', Str ''u''), (Str ''b'', Str ''w'')] = []"
    by (simp add: to_update_def)
  have "map_of [(Str ''a'', Str ''u'')] (Str ''b'')
          \<noteq> map_of [(Str ''a'', Str ''u''), (Str ''b'', Str ''w'')] (Str ''b'')" by simp
  then show "map_of [(Str ''a'', Str ''u'')] \<noteq> map_of [(Str ''a'', Str ''u''), (Str ''b'', Str ''w'')]"
    by metis
qed

text \<open>
  Claim C1, amended. For dictionaries \<open>remote\<close> and \<open>cached\<close>, the change set is empty
  if and only if every entry of \<open>remote\<close> is in \<open>cached\<close> with the same URL (entries that
  only \<open>cached\<close> has are not reported); so it is empty when the two are equal as
  mappings. If \<open>remote\<close> is \<open>cached\<close> plus one key that \<open>cached\<close> does not have, the change
  set is exactly that entry.
\<close>

theorem to_update_empty_iff:
  assumes "distinct (map fst remote)"
  shows "(to_update remote cached = [] \<longleftrightarrow> map_of remote \<subseteq>\<^sub>m map_of cached)
       \<and> (map_of remote = map_of cached \<longrightarrow> to_update remote cached = [])
       \<and> (map_of cached k = None \<and> map_of remote = (map_of cached)(k \<mapsto> v)
            \<longrightarrow> to_update remote cached = [(k, v)])"
proof (intro conjI impI)
  have mem: "(a, u) \<in> set remote \<longleftrightarrow> map_of remote a = Some u" for a u
    using assms by simp
  have "to_update remote cached = [] \<longleftrightarrow> (\<forall>(a, u)\<in>set remote. map_of cached a = Some u)"
    by (auto simp: to_update_def filter_empty_conv)
  also have "\<dots> \<longleftrightarrow> (\<forall>a u. (a, u) \<in> set remote \<longrightarrow> map_of cached a = Some u)"
    by auto
  also have "\<dots> \<longleftrightarrow> (\<forall>a u. map_of remote a = Some u \<longrightarrow> map_of cached a = Some u)"
    unfolding mem ..
  also have "\<dots> \<longleftrightarrow> map_of remote \<subseteq>\<^sub>m map_of cached"
    by (auto simp: map_le_def dom_def)
  finally show iff: "to_update remote cached = [] \<longleftrightarrow> map_of remote \<subseteq>\<^sub>m map_of cached" .
  { assume "map_of remote = map_of cached"
    then have "map_of remote \<subseteq>\<^sub>m map_of cached" by simp
    with iff show "to_update remote cached = []" by simp }
  { assume a: "map_of cached k = None \<and> map_of remote = (map_of cached)(k \<mapsto> v)"
    have "filter (\<lambda>(a, u). map_of cached a = None \<or> map_of cached a \<noteq> Some u) remote
            = filter (\<lambda>p. p = (k, v)) remote"
    proof (rule filter_cong[OF refl])
      fix p assume "p \<in> set remote"
      then have "map_of remote (fst p) = Some (snd p)" using mem[of "fst p" "snd p"] by simp
      with a show "(case p of (a, u) \<Rightarrow> map_of cached a = None \<or> map_of cached a \<noteq> Some u) = (p = (k, v))"
        by (cases p) (auto split: if_splits)
    qed
    moreover have "(k, v) \<in> set remote" using a mem[of k v] by simp
    ultimately show "to_update remote cached = [(k, v)]"
      using filter_eq_single[OF distinct_fst_pairs[OF assms]] by (simp add: to_update_def) }
qed

theorem to_update_empty_iff_witness:
  "distinct (map fst [(Str ''a'', Str ''u''), (Str ''b'', Str ''w'')])
   \<and> to_update [(Str ''a'', Str ''u''), (Str ''b'', Str ''w'')] [(Str ''a'', Str ''u'')]
       = [(Str ''b'', Str ''w'')]
   \<and> to_update [(Str ''a'', Str ''u''), (Str ''b'', Str ''w'')]
        [(Str ''b'', Str ''w''), (Str ''a'', Str ''u'')] = []"
proof -
  let ?r = "[(Str ''a'', Str ''u''), (Str ''b'', Str ''w'')]"
  let ?c = "[(Str ''a'', Str ''u'')]"
  let ?c2 = "[(Str ''b'', Str ''w''), (Str ''a'', Str ''u'')]"
  have d: "distinct (map fst ?r)" by simp
  have p: "map_of ?c (Str ''b'') = None \<and> map_of ?r = (map_of ?c)(Str ''b'' \<mapsto> Str ''w'')"
    by (auto simp: fun_eq_iff)
  have 1: "to_update ?r ?c = [(Str ''b'', Str ''w'')]"
    using to_update_empty_iff[OF d, of ?c "Str ''b''" "Str ''w''"] p by simp
  have q: "map_of ?r = map_of ?c2" by (auto simp: fun_eq_iff)
  have 2: "to_update ?r ?c2 = []"
    using to_update_empty_iff[OF d, of ?c2] q by simp
  show ?thesis using d 1 2 by simp
qed

section \<open>Rows of the payload\<close>

text \<open>
  Claim C8, as stated, at a concrete input: the selection column of this row is
  \<open>yes\<close> after trimming and lowering and its URL is accepted, yet the row is not in the
  result, because its name normalizes to the empty string.
\<close>

theorem selected_row_with_empty_name:
  "py_lower (py_strip '' Yes '') = ''yes''
   \<and> clean_url (sheet_prefix @ replicate 44 CHR ''a'' @ ''/edit'')
       = Some (sheet_prefix @ replicate 44 CHR ''a'' @ ''/'')
   \<and> parse_csv (\<lambda>t. Inr [[''Best'' \<mapsto> Str '' Yes '', ''Artist Name'' \<mapsto> Str ''!!!'',
                             ''URL'' \<mapsto> Str (sheet_prefix @ replicate 44 CHR ''a'' @ ''/edit'')]]) []
       = Inr []"
  by code_simp

text \<open>
  Claim C8, amended. A row whose selection column, trimmed and lowercased, is not
  \<open>yes\<close> leaves the result as it was. A selected row with a name and a URL is stored
  (under its normalized name, with its canonical URL) if and only if its URL is
  accepted and its normalized name is not empty; otherwise it leaves the result as it
  was. So the keys of the parsed catalog are exactly the normalized names of the rows
  that meet the three conditions, and every entry comes from such a row.
\<close>

theorem parse_csv_includes:
  "(row_get row ''Best'' (Str []) = Str best \<and> py_lower (py_strip best) \<noteq> ''yes''
      \<longrightarrow> parse_row result row = Inr result)
   \<and> (row_get row ''Best'' (Str []) = Str best \<and> py_lower (py_strip best) = ''yes''
        \<and> row ''Artist Name'' = Some (Str name) \<and> row ''URL'' = Some (Str u)
      \<longrightarrow> (clean_url u = None \<or> normalize_artist_name name = []
             \<longrightarrow> parse_row result row = Inr result)
        \<and> (\<forall>c. clean_url u = Some c \<and> normalize_artist_name name \<noteq> []
             \<longrightarrow> parse_row result row
                   = Inr (AList.update (Str (normalize_artist_name name)) (Str c) result)))
   \<and> (reader payload = Inr rows \<and> parse_csv reader payload = Inr d
      \<longrightarrow> (\<forall>k. k \<in> fst ` set d \<longleftrightarrow>
              (\<exists>r\<in>set rows. \<exists>best name u c.
                 row_get r ''Best'' (Str []) = Str best \<and> py_lower (py_strip best) = ''yes''
                 \<and> r ''Artist Name'' = Some (Str name) \<and> r ''URL'' = Some (Str u)
                 \<and> clean_url u = Some c \<and> normalize_artist_name name \<noteq> []
                 \<and> k = Str (normalize_artist_name name)))
        \<and> (\<forall>k v. (k, v) \<in> set d \<longrightarrow>
              (\<exists>r\<in>set rows. \<exists>best name u c.
                 row_get r ''Best'' (Str []) = Str best \<and> py_lower (py_strip best) = ''yes''
                 \<and> r ''Artist Name'' = Some (Str name) \<and> r ''URL'' = Some (Str u)
                 \<and> clean_url u = Some c \<and> normalize_artist_name name \<noteq> []
                 \<and> k = Str (normalize_artist_name name) \<and> v = Str c)))"
proof (intro conjI)
  show "row_get row ''Best'' (Str []) = Str best \<and> py_lower (py_strip best) \<noteq> ''yes''
      \<longrightarrow> parse_row result row = Inr result"
    by (simp add: parse_row_def)
next
  show "row_get row ''Best'' (Str []) = Str best \<and> py_lower (py_strip best) = ''yes''
        \<and> row ''Artist Name'' = Some (Str name) \<and> row ''URL'' = Some (Str u)
      \<longrightarrow> (clean_url u = None \<or> normalize_artist_name name = []
             \<longrightarrow> parse_row result row = Inr result)
        \<and> (\<forall>c. clean_url u = Some c \<and> normalize_artist_name name \<noteq> []
             \<longrightarrow> parse_row result row
                   = Inr (AList.update (Str (normalize_artist_name name)) (Str c) result))"
    by (auto simp: parse_row_def Let_def split: option.splits)
next
  show "reader payload = Inr rows \<and> parse_csv reader payload = Inr d
      \<longrightarrow> (\<forall>k. k \<in> fst ` set d \<longleftrightarrow>
              (\<exists>r\<in>set rows. \<exists>best name u c.
                 row_get r ''Best'' (Str []) = Str best \<and> py_lower (py_strip best) = ''yes''
                 \<and> r ''Artist Name'' = Some (Str name) \<and> r ''URL'' = Some (Str u)
                 \<and> clean_url u = Some c \<and> normalize_artist_name name \<noteq> []
                 \<and> k = Str (normalize_artist_name name)))
        \<and> (\<forall>k v. (k, v) \<in> set d \<longrightarrow>
              (\<exists>r\<in>set rows. \<exists>best name u c.
                 row_get r ''Best'' (Str []) = Str best \<and> py_lower (py_strip best) = ''yes''
                 \<and> r ''Artist Name'' = Some (Str name) \<and> r ''URL'' = Some (Str u)
                 \<and> clean_url u = Some c \<and> normalize_artist_name name \<noteq> []
                 \<and> k = Str (normalize_artist_name name) \<and> v = Str c))"
  proof (intro impI)
    assume a: "reader payload = Inr rows \<and> parse_csv reader payload = Inr d"
    then have p: "parse_rows [] rows = Inr d" by (auto simp: parse_csv_def)
    have keys: "k \<in> fst ` set d \<longleftrightarrow> (\<exists>r\<in>set rows. \<exists>v. row_stores r k v)" for k
      using parse_rows_keys[OF p] by auto
    have entries: "(k, v) \<in> set d \<Longrightarrow> \<exists>r\<in>set rows. row_stores r k v" for k v
      using parse_rows_entries[OF p, of k v] by simp
    show "(\<forall>k. k \<in> fst ` set d \<longleftrightarrow>
              (\<exists>r\<in>set rows. \<exists>best name u c.
                 row_get r ''Best'' (Str []) = Str best \<and> py_lower (py_strip best) = ''yes''
                 \<and> r ''Artist Name'' = Some (Str name) \<and> r ''URL'' = Some (Str u)
                 \<and> clean_url u = Some c \<and> normalize_artist_name name \<noteq> []
                 \<and> k = Str (normalize_artist_name name)))
        \<and> (\<forall>k v. (k, v) \<in> set d \<longrightarrow>
              (\<exists>r\<in>set rows. \<exists>best name u c.
                 row_get r ''Best'' (Str []) = Str best \<and> py_lower (py_strip best) = ''yes''
                 \<and> r ''Artist Name'' = Some (Str name) \<and> r ''URL'' = Some (Str u)
                 \<and> clean_url u = Some c \<and> normalize_artist_name name \<noteq> []
                 \<and> k = Str (normalize_artist_name name) \<and> v = Str c))"
    proof (intro conjI allI impI)
      fix k
      show "k \<in> fst ` set d \<longleftrightarrow>
              (\<exists>r\<in>set rows. \<exists>best name u c.
                 row_get r ''Best'' (Str []) = Str best \<and> py_lower (py_strip best) = ''yes''
                 \<and> r ''Artist Name'' = Some (Str name) \<and> r ''URL'' = Some (Str u)
                 \<and> clean_url u = Some c \<and> normalize_artist_name name \<noteq> []
                 \<and> k = Str (normalize_artist_name name))"
        unfolding keys row_stores_def by blast
    next
      fix k v assume "(k, v) \<in> set d"
      from entries[OF this]
      show "\<exists>r\<in>set rows. \<exists>best name u c.
                 row_get r ''Best'' (Str []) = Str best \<and> py_lower (py_strip best) = ''yes''
                 \<and> r ''Artist Name'' = Some (Str name) \<and> r ''URL'' = Some (Str u)
                 \<and> clean_url u = Some c \<and> normalize_artist_name name \<noteq> []
                 \<and> k = Str (normalize_artist_name name) \<and> v = Str c"
        unfolding row_stores_def by blast
    qed
  qed
qed

theorem parse_csv_includes_witness:
  "parse_row [(Str ''ann'', Str ''old'')]
     [''Best'' \<mapsto> Str ''no'', ''Artist Name'' \<mapsto> Str ''Ann'',
      ''URL'' \<mapsto> Str (sheet_prefix @ replicate 44 CHR ''a'' @ ''/edit'')]
     = Inr [(Str ''ann'', Str ''old'')]
   \<and> parse_row [(Str ''ann'', Str ''old'')]
     [''Best'' \<mapsto> Str '' YES'', ''Artist Name'' \<mapsto> Str ''Ann'',
      ''URL'' \<mapsto> Str (sheet_prefix @ replicate 44 CHR ''a'' @ ''/edit'')]
     = Inr [(Str ''ann'', Str (sheet_prefix @ replicate 44 CHR ''a'' @ ''/''))]
   \<and> parse_row [(Str ''ann'', Str ''old'')]
     [''Best'' \<mapsto> Str '' YES'', ''Artist Name'' \<mapsto> Str ''Ann'', ''URL'' \<mapsto> Str ''http://x'']
     = Inr [(Str ''ann'', Str ''old'')]
   \<and> Str ''ann'' \<in> fst ` set [(Str ''ann'', Str (sheet_prefix @ replicate 44 CHR ''a'' @ ''/''))]"
proof -
  let ?u = "sheet_prefix @ replicate 44 CHR ''a'' @ ''/edit''"
  let ?c = "sheet_prefix @ replicate 44 CHR ''a'' @ ''/''"
  let ?old = "[(Str ''ann'', Str ''old'')]"
  let ?r1 = "[''Best'' \<mapsto> Str ''no'', ''Artist Name'' \<mapsto> Str ''Ann'', ''URL'' \<mapsto> Str ?u]"
  let ?r2 = "[''Best'' \<mapsto> Str '' YES'', ''Artist Name'' \<mapsto> Str ''Ann'', ''URL'' \<mapsto> Str ?u]"
  let ?r3 = "[''Best'' \<mapsto> Str '' YES'', ''Artist Name'' \<mapsto> Str ''Ann'', ''URL'' \<mapsto> Str ''http://x'']"
  let ?reader = "\<lambda>t :: string. (Inr [?r1, ?r2, ?r3] :: error + row list)"
  have c: "clean_url ?u = Some ?c" by code_simp
  have n: "normalize_artist_name ''Ann'' = ''ann''" by code_simp
  have y: "py_lower (py_strip '' YES'') = ''yes''" by code_simp
  have x: "clean_url ''http://x'' = None" by code_simp
  have h1: "row_get ?r1 ''Best'' (Str []) = Str ''no'' \<and> py_lower (py_strip ''no'') \<noteq> ''yes''"
    by code_simp
  have 1: "parse_row ?old ?r1 = Inr ?old"
    by (rule mp[OF conjunct1[OF parse_csv_includes] h1])
  have h2: "row_get ?r2 ''Best'' (Str []) = Str '' YES'' \<and> py_lower (py_strip '' YES'') = ''yes''
      \<and> ?r2 ''Artist Name'' = Some (Str ''Ann'') \<and> ?r2 ''URL'' = Some (Str ?u)"
    using y by (simp add: row_get_def)
  have h2': "clean_url ?u = Some ?c \<and> normalize_artist_name ''Ann'' \<noteq> []"
    using c n by simp
  from mp[OF conjunct1[OF conjunct2[OF parse_csv_includes]] h2]
  have a2: "\<forall>c. clean_url ?u = Some c \<and> normalize_artist_name ''Ann'' \<noteq> []
          \<longrightarrow> parse_row ?old ?r2 = Inr (AList.update (Str (normalize_artist_name ''Ann'')) (Str c) ?old)"
    by (rule conjunct2)
  have "parse_row ?old ?r2 = Inr (AList.update (Str (normalize_artist_name ''Ann'')) (Str ?c) ?old)"
    by (rule mp[OF spec[OF a2] h2'])
  then have 2: "parse_row ?old ?r2 = Inr [(Str ''ann'', Str ?c)]"
    using n by simp
  have h3: "row_get ?r3 ''Best'' (Str []) = Str '' YES'' \<and> py_lower (py_strip '' YES'') = ''yes''
      \<and> ?r3 ''Artist Name'' = Some (Str ''Ann'') \<and> ?r3 ''URL'' = Some (Str ''http://x'')"
    using y by (simp add: row_get_def)
  from mp[OF conjunct1[OF conjunct2[OF parse_csv_includes]] h3]
  have "clean_url ''http://x'' = None \<or> normalize_artist_name ''Ann'' = []
          \<longrightarrow> parse_row ?old ?r3 = Inr ?old"
    by (rule conjunct1)
  then have 3: "parse_row ?old ?r3 = Inr ?old" using x by simp
  have pc0: "parse_csv ?reader [] = Inr [(Str ''ann'', Str ?c)]" by code_simp
  have pc: "?reader [] = Inr [?r1, ?r2, ?r3] \<and> parse_csv ?reader [] = Inr [(Str ''ann'', Str ?c)]"
    by (rule conjI[OF refl pc0])
  have ex: "\<exists>r\<in>set [?r1, ?r2, ?r3]. \<exists>best name u c.
                 row_get r ''Best'' (Str []) = Str best \<and> py_lower (py_strip best) = ''yes''
                 \<and> r ''Artist Name'' = Some (Str name) \<and> r ''URL'' = Some (Str u)
                 \<and> clean_url u = Some c \<and> normalize_artist_name name \<noteq> []
                 \<and> Str ''ann'' = Str (normalize_artist_name name)"
    using h2 h2' n by (intro bexI[of _ ?r2] exI[of _ "'' YES''"] exI[of _ "''Ann''"] exI[of _ ?u] exI[of _ ?c]) simp_all
  from mp[OF conjunct2[OF conjunct2[OF parse_csv_includes]] pc]
  have a4: "\<forall>k. k \<in> fst ` set [(Str ''ann'', Str ?c)] \<longleftrightarrow>
              (\<exists>r\<in>set [?r1, ?r2, ?r3]. \<exists>best name u c.
                 row_get r ''Best'' (Str []) = Str best \<and> py_lower (py_strip best) = ''yes''
                 \<and> r ''Artist Name'' = Some (Str name) \<and> r ''URL'' = Some (Str u)
                 \<and> clean_url u = Some c \<and> normalize_artist_name name \<noteq> []
                 \<and> k = Str (normalize_artist_name name))"
    by (rule conjunct1)
  have 4: "Str ''ann'' \<in> fst ` set [(Str ''ann'', Str ?c)]"
    by (rule iffD2[OF spec[OF a4] ex])
  show ?thesis by (intro conjI) (rule 1, rule 2, rule 3, rule 4)
qed

text \<open>
  Claim C9, as stated, at a concrete input: the name made of the one code point
  U+212A (the Kelvin sign, 8490) holds no ASCII letter, no digit and no dollar sign,
  yet it does not normalize to the empty string: \<open>str.lower\<close> turns it into \<open>k\<close> (107),
  so a selected row with that name and an accepted URL is stored under the key \<open>k\<close>.
  The same holds of U+0130 (304), whose lowercase begins with \<open>i\<close> (105).
\<close>

theorem kelvin_sign_normalizes_to_k:
  "\<not> plain_point 8490
   \<and> normalize_code_points (\<lambda>before rest. False) [8490] = [107]
   \<and> \<not> plain_point 304
   \<and> normalize_code_points (\<lambda>before rest. False) [304] = [105]"
  by (simp add: plain_point_def normalize_code_points_def lower_point_def lower_runs_def
        name_point_def)

text \<open>
  Claim C9, amended. A row whose name normalizes to the empty string leaves the result
  as it was, also when it is selected and its URL is accepted; the empty string is
  never a key of a parsed catalog. A name normalizes to the empty string when, for
  example, it holds no ASCII letter, no digit, no dollar sign and neither U+0130 nor
  U+212A. (The rows of the model carry names of code points below U+0100; on these
  the normalizer on all code points and \<open>normalize_artist_name\<close> agree, and a selected
  row whose name holds no ASCII letter, digit or dollar sign is dropped.)
\<close>

theorem empty_name_dropped:
  "(row_get row ''Best'' (Str []) = Str best \<and> row ''Artist Name'' = Some (Str name)
      \<and> row ''URL'' = Some (Str u) \<and> normalize_artist_name name = []
      \<longrightarrow> parse_row result row = Inr result)
   \<and> (parse_csv reader payload = Inr d \<longrightarrow> Str [] \<notin> fst ` set d)
   \<and> ((\<forall>c\<in>set points. \<not> plain_point c \<and> c \<noteq> 304 \<and> c \<noteq> 8490)
      \<longrightarrow> normalize_code_points final_sigma points = [])
   \<and> normalize_code_points final_sigma (map of_char name) = map of_char (normalize_artist_name name)
   \<and> (row_get row ''Best'' (Str []) = Str best \<and> row ''Artist Name'' = Some (Str name)
      \<and> row ''URL'' = Some (Str u) \<and> (\<forall>c\<in>set name. \<not> plain_point (of_char c))
      \<longrightarrow> parse_row result row = Inr result)"
proof (intro conjI impI)
  assume "row_get row ''Best'' (Str []) = Str best \<and> row ''Artist Name'' = Some (Str name)
      \<and> row ''URL'' = Some (Str u) \<and> normalize_artist_name name = []"
  then show "parse_row result row = Inr result"
    by (auto simp: parse_row_def Let_def split: option.splits)
next
  assume "parse_csv reader payload = Inr d"
  then obtain rows where p: "parse_rows [] rows = Inr d"
    by (auto simp: parse_csv_def split: sum.splits)
  show "Str [] \<notin> fst ` set d"
  proof
    assume "Str [] \<in> fst ` set d"
    with parse_rows_keys[OF p] obtain r v where "row_stores r (Str []) v" by auto
    then show False by (auto simp: row_stores_def)
  qed
next
  assume "\<forall>c\<in>set points. \<not> plain_point c \<and> c \<noteq> 304 \<and> c \<noteq> 8490"
  then show "normalize_code_points final_sigma points = []"
    by (rule normalize_code_points_plain)
next
  show "normalize_code_points final_sigma (map of_char name) = map of_char (normalize_artist_name name)"
    by (rule normalize_code_points_of_char)
next
  assume a: "row_get row ''Best'' (Str []) = Str best \<and> row ''Artist Name'' = Some (Str name)
      \<and> row ''URL'' = Some (Str u) \<and> (\<forall>c\<in>set name. \<not> plain_point (of_char c))"
  have "\<forall>c\<in>set (map of_char name :: nat list). \<not> plain_point c \<and> c \<noteq> 304 \<and> c \<noteq> 8490"
  proof
    fix c :: nat assume "c \<in> set (map of_char name)"
    then obtain x where x: "x \<in> set name" "c = of_char x" by auto
    have b: "c < 256" using x(2) of_char_below[of x] by simp
    have 1: "c \<noteq> 304" using b by linarith
    have 2: "c \<noteq> 8490" using b by linarith
    have 3: "\<not> plain_point c" using a x by simp
    show "\<not> plain_point c \<and> c \<noteq> 304 \<and> c \<noteq> 8490" using 1 2 3 by (intro conjI)
  qed
  then have "normalize_code_points (\<lambda>before rest. False) (map of_char name) = []"
    by (rule normalize_code_points_plain)
  then have "map of_char (normalize_artist_name name) = ([] :: nat list)"
    by (simp only: normalize_code_points_of_char)
  then have "normalize_artist_name name = []" by simp
  with a show "parse_row result row = Inr result"
    by (auto simp: parse_row_def Let_def split: option.splits)
qed

theorem empty_name_dropped_witness:
  "normalize_artist_name ''!!!'' = []
   \<and> parse_row [(Str ''ann'', Str ''old'')]
        [''Best'' \<mapsto> Str ''yes'', ''Artist Name'' \<mapsto> Str ''!!!'',
         ''URL'' \<mapsto> Str (sheet_prefix @ replicate 44 CHR ''a'' @ ''/edit'')]
       = Inr [(Str ''ann'', Str ''old'')]
   \<and> Str [] \<notin> fst ` set [(Str ''ann'', Str (sheet_prefix @ replicate 44 CHR ''a'' @ ''/''))]
   \<and> normalize_code_points (\<lambda>before rest. False) [20013, 25991] = []
   \<and> parse_row [(Str ''ann'', Str ''old'')]
        [''Best'' \<mapsto> Str ''yes'', ''Artist Name'' \<mapsto> Str ''(?)'',
         ''URL'' \<mapsto> Str (sheet_prefix @ replicate 44 CHR ''a'' @ ''/edit'')]
       = Inr [(Str ''ann'', Str ''old'')]"
proof -
  let ?u = "sheet_prefix @ replicate 44 CHR ''a'' @ ''/edit''"
  let ?c = "sheet_prefix @ replicate 44 CHR ''a'' @ ''/''"
  let ?old = "[(Str ''ann'', Str ''old'')]"
  let ?r1 = "[''Best'' \<mapsto> Str ''yes'', ''Artist Name'' \<mapsto> Str ''!!!'', ''URL'' \<mapsto> Str ?u]"
  let ?r2 = "[''Best'' \<mapsto> Str ''yes'', ''Artist Name'' \<mapsto> Str ''Ann'', ''URL'' \<mapsto> Str ?u]"
  let ?r3 = "[''Best'' \<mapsto> Str ''yes'', ''Artist Name'' \<mapsto> Str ''(?)'', ''URL'' \<mapsto> Str ?u]"
  let ?reader = "\<lambda>t :: string. (Inr [?r1, ?r2] :: error + row list)"
  let ?fs = "\<lambda>(before :: nat list) (rest :: nat list). False"
  have n: "normalize_artist_name ''!!!'' = []" by code_simp
  have h: "row_get ?r1 ''Best'' (Str []) = Str ''yes'' \<and> ?r1 ''Artist Name'' = Some (Str ''!!!'')
      \<and> ?r1 ''URL'' = Some (Str ?u) \<and> normalize_artist_name ''!!!'' = []"
    using n by (simp add: row_get_def)
  have 1: "parse_row ?old ?r1 = Inr ?old"
    by (rule mp[OF conjunct1[OF empty_name_dropped] h])
  have pc: "parse_csv ?reader [] = Inr [(Str ''ann'', Str ?c)]" by code_simp
  have 2: "Str [] \<notin> fst ` set [(Str ''ann'', Str ?c)]"
    by (rule mp[OF conjunct1[OF conjunct2[OF empty_name_dropped]] pc])
  have h3: "\<forall>c\<in>set [20013, 25991 :: nat]. \<not> plain_point c \<and> c \<noteq> 304 \<and> c \<noteq> 8490"
    by (simp add: plain_point_def)
  have 3: "normalize_code_points ?fs [20013, 25991] = []"
    by (rule mp[OF conjunct1[OF conjunct2[OF conjunct2[OF empty_name_dropped]]] h3])
  have h4: "row_get ?r3 ''Best'' (Str []) = Str ''yes'' \<and> ?r3 ''Artist Name'' = Some (Str ''(?)'')
      \<and> ?r3 ''URL'' = Some (Str ?u) \<and> (\<forall>c\<in>set ''(?)''. \<not> plain_point (of_char c))"
    by (simp add: row_get_def plain_point_def)
  have 4: "parse_row ?old ?r3 = Inr ?old"
    by (rule mp[OF conjunct2[OF conjunct2[OF conjunct2[OF conjunct2[OF empty_name_dropped]]]] h4])
  show ?thesis by (intro conjI) (rule n, rule 1, rule 2, rule 3, rule 4)
qed

section \<open>Archive throttler: the three ends of a run\<close>

text \<open>
  Claim C3, as stated, at a concrete input: the file has a metadata record with one
  key of its own, \<open>note\<close>. After the submission succeeds the record written holds
  that key still, before \<open>sha256\<close> and \<open>lastarchive\<close>: the record loaded is updated
  and written back, so the new record is the old one merged with the two keys.
\<close>

theorem archive_keeps_other_keys:
  "archive_file (example_env (\<lambda>u. Inr ''ok''))
     [(''f'', ''data''), (''f.meta'', ''note:keep\<newline>'')] ''f'' ''u''
   = ([(''f'', ''data''),
       (''f.meta'', ''note:keep\<newline>sha256:#data\<newline>lastarchive:2026-11-03\<newline>'')],
      [Sleep 540, Submit ''u''])"
  by code_simp

text \<open>
  Claim C3, amended. When a file that can be read is due and its submission succeeds,
  the metadata file is rewritten in full with the text of a record in which \<open>sha256\<close>
  is the hash of the file's content and \<open>lastarchive\<close> is the date at the moment of
  recording, and in which every other key of the record loaded before keeps its
  value. When the record loaded has no key but these two (or there is no record), the
  text written is exactly the two lines \<open>sha256:hash\<close> and \<open>lastarchive:date\<close>, in one
  order or the other.
\<close>

theorem archive_success_record:
  fixes E :: "('d::order) archive_env"
  assumes "should_archive_today (strptime E) (date_at_check E)
             (dict_get (load_metadata files file_path) ''lastarchive'')"
      and "wayback_save E url = Inr archive_url"
      and "map_of files file_path = Some data"
  shows "\<exists>metadata.
           archive_file E files file_path url
             = (write_file files (get_metadata_path file_path) (metadata_text metadata),
                [Sleep (randint E * 60), Submit url])
         \<and> map_of metadata (Str ''sha256'') = Some (Str (sha256_hex E data))
         \<and> map_of metadata (Str ''lastarchive'') = Some (Str (strftime E (date_at_record E)))
         \<and> (\<forall>k. k \<noteq> Str ''sha256'' \<and> k \<noteq> Str ''lastarchive''
                \<longrightarrow> map_of metadata k = map_of (load_metadata files file_path) k)
         \<and> (fst ` set (load_metadata files file_path) \<subseteq> {Str ''sha256'', Str ''lastarchive''}
                \<longrightarrow> metadata_text metadata
                      = ''sha256:'' @ sha256_hex E data @ [CHR 0x0A]
                        @ ''lastarchive:'' @ strftime E (date_at_record E) @ [CHR 0x0A]
                  \<or> metadata_text metadata
                      = ''lastarchive:'' @ strftime E (date_at_record E) @ [CHR 0x0A]
                        @ ''sha256:'' @ sha256_hex E data @ [CHR 0x0A])"
proof -
  let ?old = "load_metadata files file_path"
  let ?h = "Str (sha256_hex E data)"
  let ?d = "Str (strftime E (date_at_record E))"
  let ?new = "AList.update (Str ''lastarchive'') ?d (AList.update (Str ''sha256'') ?h ?old)"
  have run: "archive_file E files file_path url
             = (write_file files (get_metadata_path file_path) (metadata_text ?new),
                [Sleep (randint E * 60), Submit url])"
    using assms by (simp add: archive_file_def Let_def sha256_of_file_def save_metadata_def)
  have sha: "map_of ?new (Str ''sha256'') = Some ?h" by (simp add: update_conv')
  have la: "map_of ?new (Str ''lastarchive'') = Some ?d" by (simp add: update_conv')
  have rest: "\<forall>k. k \<noteq> Str ''sha256'' \<and> k \<noteq> Str ''lastarchive'' \<longrightarrow> map_of ?new k = map_of ?old k"
    by (simp add: update_conv')
  have two: "metadata_text ?new
                      = ''sha256:'' @ sha256_hex E data @ [CHR 0x0A]
                        @ ''lastarchive:'' @ strftime E (date_at_record E) @ [CHR 0x0A]
                  \<or> metadata_text ?new
                      = ''lastarchive:'' @ strftime E (date_at_record E) @ [CHR 0x0A]
                        @ ''sha256:'' @ sha256_hex E data @ [CHR 0x0A]"
    if "fst ` set ?old \<subseteq> {Str ''sha256'', Str ''lastarchive''}"
  proof -
    have "Str ''sha256'' \<noteq> Str ''lastarchive''" by simp
    from two_key_dict[OF load_metadata_distinct that this, of ?d ?h]
    show ?thesis by (auto simp: metadata_text_def py_format_def)
  qed
  show ?thesis
    by (rule exI[of _ ?new]) (use run sha la rest two in blast)
qed

theorem archive_success_record_witness:
  "should_archive_today (strptime (example_env (\<lambda>u. Inr ''ok'')))
     (date_at_check (example_env (\<lambda>u. Inr ''ok'')))
     (dict_get (load_metadata [(''f'', ''data'')] ''f'') ''lastarchive'')
   \<and> archive_file (example_env (\<lambda>u. Inr ''ok'')) [(''f'', ''data'')] ''f'' ''u''
       = ([(''f'', ''data''), (''f.meta'', ''sha256:#data\<newline>lastarchive:2026-11-03\<newline>'')],
          [Sleep 540, Submit ''u''])"
proof -
  let ?E = "example_env (\<lambda>u. Inr ''ok'')"
  let ?fs = "[(''f'', ''data'')]"
  have el: "should_archive_today (strptime ?E) (date_at_check ?E)
              (dict_get (load_metadata ?fs ''f'') ''lastarchive'')" by code_simp
  have ok: "wayback_save ?E ''u'' = Inr ''ok''" by (simp add: example_env_def)
  have rd: "map_of ?fs ''f'' = Some ''data''" by simp
  have keys: "fst ` set (load_metadata ?fs ''f'') \<subseteq> {Str ''sha256'', Str ''lastarchive''}"
    by (simp add: load_metadata_def get_metadata_path_def)
  from archive_success_record[OF el ok rd]
  obtain metadata where m:
    "archive_file ?E ?fs ''f'' ''u''
       = (write_file ?fs (get_metadata_path ''f'') (metadata_text metadata),
          [Sleep (randint ?E * 60), Submit ''u''])"
    "fst ` set (load_metadata ?fs ''f'') \<subseteq> {Str ''sha256'', Str ''lastarchive''}
       \<longrightarrow> metadata_text metadata
             = ''sha256:'' @ sha256_hex ?E ''data'' @ [CHR 0x0A]
               @ ''lastarchive:'' @ strftime ?E (date_at_record ?E) @ [CHR 0x0A]
         \<or> metadata_text metadata
             = ''lastarchive:'' @ strftime ?E (date_at_record ?E) @ [CHR 0x0A]
               @ ''sha256:'' @ sha256_hex ?E ''data'' @ [CHR 0x0A]"
    by blast
  have ev: "archive_file ?E ?fs ''f'' ''u''
       = ([(''f'', ''data''), (''f.meta'', ''sha256:#data\<newline>lastarchive:2026-11-03\<newline>'')],
          [Sleep 540, Submit ''u''])" by code_simp
  from m(1) ev have "metadata_text metadata = ''sha256:#data\<newline>lastarchive:2026-11-03\<newline>''"
    by (simp add: write_file_def get_metadata_path_def)
  with m(1) have "archive_file ?E ?fs ''f'' ''u''
       = (write_file ?fs (get_metadata_path ''f'') ''sha256:#data\<newline>lastarchive:2026-11-03\<newline>'',
          [Sleep (randint ?E * 60), Submit ''u''])" by simp
  then have "archive_file ?E ?fs ''f'' ''u''
       = ([(''f'', ''data''), (''f.meta'', ''sha256:#data\<newline>lastarchive:2026-11-03\<newline>'')],
          [Sleep 540, Submit ''u''])"
    by (simp add: write_file_def get_metadata_path_def example_env_def)
  with el show ?thesis by (rule conjI)
qed

text \<open>
  Claim C5. When the metadata record of a file has a \<open>lastarchive\<close> that is the date
  of the day, \<open>archive_file\<close> ends at once: the file store is unchanged, no delay and
  no submission is made, whatever the content of the file and whatever its hash.
\<close>

theorem archive_skipped_today:
  fixes E :: "('d::order) archive_env"
  assumes "dict_get (load_metadata files file_path) ''lastarchive'' = Str s"
      and "strptime E s = Some (date_at_check E)"
  shows "archive_file E files file_path url = (files, [])"
  using assms by (simp add: archive_file_def should_archive_today_def Let_def)

theorem archive_skipped_today_witness:
  "dict_get (load_metadata [(''f'', ''new data''), (''f.meta'', ''sha256:#data\<newline>lastarchive:2026-11-03\<newline>'')]
      ''f'') ''lastarchive'' = Str ''2026-11-03''
   \<and> strptime (example_env (\<lambda>u. Inr ''ok'')) ''2026-11-03''
       = Some (date_at_check (example_env (\<lambda>u. Inr ''ok'')))
   \<and> archive_file (example_env (\<lambda>u. Inr ''ok''))
        [(''f'', ''new data''), (''f.meta'', ''sha256:#data\<newline>lastarchive:2026-11-03\<newline>'')] ''f'' ''u''
       = ([(''f'', ''new data''), (''f.meta'', ''sha256:#data\<newline>lastarchive:2026-11-03\<newline>'')], [])"
proof -
  let ?E = "example_env (\<lambda>u. Inr ''ok'')"
  let ?fs = "[(''f'', ''new data''), (''f.meta'', ''sha256:#data\<newline>lastarchive:2026-11-03\<newline>'')]"
  have 1: "dict_get (load_metadata ?fs ''f'') ''lastarchive'' = Str ''2026-11-03''" by code_simp
  have 2: "strptime ?E ''2026-11-03'' = Some (date_at_check ?E)" by (simp add: example_env_def)
  have 3: "archive_file ?E ?fs ''f'' ''u'' = (?fs, [])"
    by (rule archive_skipped_today[OF 1 2])
  show ?thesis by (intro conjI) (rule 1, rule 2, rule 3)
qed

text \<open>
  Claim C6. When the submission raises, \<open>archive_file\<close> leaves the whole file store,
  and so the metadata record of the file, as it was; and a file whose submission was
  tried is due again on that day and on every later day.
\<close>

theorem archive_failure_persists_nothing:
  fixes E :: "('d::order) archive_env"
  assumes "wayback_save E url = Inl e"
  shows "fst (archive_file E files file_path url) = files
       \<and> (Submit url \<in> set (snd (archive_file E files file_path url)) \<longrightarrow>
            (\<forall>later. date_at_check E \<le> later \<longrightarrow>
               should_archive_today (strptime E) later
                 (dict_get (load_metadata (fst (archive_file E files file_path url)) file_path)
                    ''lastarchive'')))"
proof -
  let ?la = "dict_get (load_metadata files file_path) ''lastarchive''"
  have 1: "fst (archive_file E files file_path url) = files"
    using assms by (simp add: archive_file_def Let_def)
  have 2: "should_archive_today (strptime E) later ?la"
    if "Submit url \<in> set (snd (archive_file E files file_path url))"
       "date_at_check E \<le> later" for later
  proof -
    from that(1) have "should_archive_today (strptime E) (date_at_check E) ?la"
      by (auto simp: archive_file_def Let_def split: if_splits)
    with that(2) show ?thesis
      by (auto simp: should_archive_today_def split: pyval.splits option.splits)
  qed
  show ?thesis using 1 2 by simp
qed

theorem archive_failure_persists_nothing_witness:
  "wayback_save (example_env (\<lambda>u. Inl WaybackError)) ''u'' = Inl WaybackError
   \<and> fst (archive_file (example_env (\<lambda>u. Inl WaybackError))
        [(''f'', ''data''), (''f.meta'', ''sha256:#old\<newline>lastarchive:2026-11-02\<newline>'')] ''f'' ''u'')
       = [(''f'', ''data''), (''f.meta'', ''sha256:#old\<newline>lastarchive:2026-11-02\<newline>'')]
   \<and> Submit ''u'' \<in> set (snd (archive_file (example_env (\<lambda>u. Inl WaybackError))
        [(''f'', ''data''), (''f.meta'', ''sha256:#old\<newline>lastarchive:2026-11-02\<newline>'')] ''f'' ''u''))
   \<and> should_archive_today (strptime (example_env (\<lambda>u. Inl WaybackError))) 4
        (dict_get (load_metadata (fst (archive_file (example_env (\<lambda>u. Inl WaybackError))
        [(''f'', ''data''), (''f.meta'', ''sha256:#old\<newline>lastarchive:2026-11-02\<newline>'')] ''f'' ''u'')) ''f'')
           ''lastarchive'')"
proof -
  let ?E = "example_env (\<lambda>u. Inl WaybackError)"
  let ?fs = "[(''f'', ''data''), (''f.meta'', ''sha256:#old\<newline>lastarchive:2026-11-02\<newline>'')]"
  have f: "wayback_save ?E ''u'' = Inl WaybackError" by (simp add: example_env_def)
  note th = archive_failure_persists_nothing[OF f, of ?fs "''f''"]
  have 1: "fst (archive_file ?E ?fs ''f'' ''u'') = ?fs" by (rule conjunct1[OF th])
  have 2: "Submit ''u'' \<in> set (snd (archive_file ?E ?fs ''f'' ''u''))" by code_simp
  have l: "date_at_check ?E \<le> 4" by (simp add: example_env_def)
  have 3: "should_archive_today (strptime ?E) 4
        (dict_get (load_metadata (fst (archive_file ?E ?fs ''f'' ''u'')) ''f'') ''lastarchive'')"
    by (rule mp[OF spec[OF mp[OF conjunct2[OF th] 2]] l])
  show ?thesis by (intro conjI) (rule f, rule 1, rule 2, rule 3)
qed

section \<open>Export downloader\<close>

text \<open>
  Claim C7. A download for an entity requests both export formats, whatever the
  first request gives; and the failure log afterwards is the log before, followed by
  one line with the URL of each of the two requests that was answered with status 401,
  and by nothing else. The directory of the entity is the export directory joined
  with a name that holds no \<open>/\<close>, as every normalized name is.
\<close>

theorem download_logs_unauthorized:
  assumes "CHR ''/'' \<notin> set artist"
  shows "requests (download_exports E sheet_id (path_join EXPORT_DIR artist) w)
           = requests w @ [export_url sheet_id ''xlsx'', export_url sheet_id ''zip'']
       \<and> log_text (disk (download_exports E sheet_id (path_join EXPORT_DIR artist) w))
           = log_text (disk w)
             @ (if unauthorized (http E (length (requests w)) (export_url sheet_id ''xlsx''))
                then export_url sheet_id ''xlsx'' @ [CHR 0x0A] else [])
             @ (if unauthorized (http E (Suc (length (requests w))) (export_url sheet_id ''zip''))
                then export_url sheet_id ''zip'' @ [CHR 0x0A] else [])"
proof -
  let ?dir = "path_join EXPORT_DIR artist"
  have x: "path_join ?dir ''spreadsheet.xlsx'' \<noteq> ''host/down.txt''"
    by (rule export_path_not_log[OF assms]) simp
  have z: "path_join ?dir ''spreadsheet.zip'' \<noteq> ''host/down.txt''"
    by (rule export_path_not_log[OF assms]) simp
  note ex = log_text_extract[OF assms]
  show ?thesis
    by (cases "http E (length (requests w)) (export_url sheet_id ''xlsx'')";
        cases "http E (Suc (length (requests w))) (export_url sheet_id ''zip'')")
       (auto simp: download_exports_def fetch_def Let_def unauthorized_def raise_for_status_def
             log_text_write log_text_log_down_host x z ex
             split: option.splits)
qed

theorem download_logs_unauthorized_witness:
  "requests (download_exports
       (example_cycle (\<lambda>n url. if n = 0 then Response 401 [] else Response 200 ''PK'') example_reader)
       example_id (path_join EXPORT_DIR ''ann'')
       \<lparr>disk = [(''host/down.txt'', ''old\<newline>'')], requests = []\<rparr>)
     = [export_url example_id ''xlsx'', export_url example_id ''zip'']
   \<and> log_text (disk (download_exports
       (example_cycle (\<lambda>n url. if n = 0 then Response 401 [] else Response 200 ''PK'') example_reader)
       example_id (path_join EXPORT_DIR ''ann'')
       \<lparr>disk = [(''host/down.txt'', ''old\<newline>'')], requests = []\<rparr>))
     = ''old\<newline>'' @ export_url example_id ''xlsx'' @ ''\<newline>''
   \<and> map_of (disk (download_exports
       (example_cycle (\<lambda>n url. if n = 0 then Response 401 [] else Response 200 ''PK'') example_reader)
       example_id (path_join EXPORT_DIR ''ann'')
       \<lparr>disk = [(''host/down.txt'', ''old\<newline>'')], requests = []\<rparr>))
       ''downloads/ann/spreadsheet.zip'' = Some ''PK''"
proof -
  let ?E = "example_cycle (\<lambda>n url. if n = 0 then Response 401 [] else Response 200 ''PK'') example_reader"
  let ?w = "\<lparr>disk = [(''host/down.txt'', ''old\<newline>'')], requests = []\<rparr>"
  have a: "CHR ''/'' \<notin> set ''ann''" by simp
  note th = download_logs_unauthorized[OF a, of ?E example_id ?w]
  have 1: "requests (download_exports ?E example_id (path_join EXPORT_DIR ''ann'') ?w)
             = [export_url example_id ''xlsx'', export_url example_id ''zip'']"
    using conjunct1[OF th] by simp
  have 2: "log_text (disk (download_exports ?E example_id (path_join EXPORT_DIR ''ann'') ?w))
             = ''old\<newline>'' @ export_url example_id ''xlsx'' @ ''\<newline>''"
    using conjunct2[OF th] by (simp add: example_cycle_def unauthorized_def log_text_def)
  have 3: "map_of (disk (download_exports ?E example_id (path_join EXPORT_DIR ''ann'') ?w))
             ''downloads/ann/spreadsheet.zip'' = Some ''PK''"
    by code_simp
  show ?thesis using 1 2 3 by simp
qed

section \<open>The cycle and a failed fetch\<close>

text \<open>
  Claim C4, as stated, at a concrete input: the catalog request is answered with
  status 304 and an empty body, a response that is not 2xx. \<open>raise_for_status\<close> raises
  for 4xx and 5xx only, so the cycle goes on with an empty catalog and overwrites the
  cached catalog, which held one entry, with the header line alone.
\<close>

theorem not_modified_overwrites_cache:
  "disk (fst (run_once (example_cycle (\<lambda>n url. Response 304 []) example_reader)
                \<lparr>disk = [(CACHE_FILE, example_cache)], requests = []\<rparr>))
     = [(CACHE_FILE, ''artist,url'' @ [CHR 0x0D, CHR 0x0A])]
   \<and> snd (run_once (example_cycle (\<lambda>n url. Response 304 []) example_reader)
                \<lparr>disk = [(CACHE_FILE, example_cache)], requests = []\<rparr>)
     = Completed []"
  by code_simp

text \<open>
  Claim C4, amended. When the catalog request raises (no response), or is answered
  with a status from 400 to 599, or is answered with another status and a body whose
  parse raises, the cycle ends in the \<open>except\<close> branch with the whole file store, and so
  the cached catalog file, exactly as it was.
\<close>

theorem fetch_failure_keeps_store:
  "(http E (length (requests w)) REMOTE_CSV_URL = ConnectionFailed
      \<longrightarrow> disk (fst (run_once E w)) = disk w \<and> snd (run_once E w) = Aborted RequestException)
   \<and> (http E (length (requests w)) REMOTE_CSV_URL = Response status body
        \<and> 400 \<le> status \<and> status < 600
      \<longrightarrow> disk (fst (run_once E w)) = disk w \<and> snd (run_once E w) = Aborted (HTTPError status))
   \<and> (http E (length (requests w)) REMOTE_CSV_URL = Response status body
        \<and> \<not> (400 \<le> status \<and> status < 600) \<and> parse_csv (dict_reader E) body = Inl e
      \<longrightarrow> disk (fst (run_once E w)) = disk w \<and> snd (run_once E w) = Aborted e)"
  by (simp add: run_once_def fetch_def raise_for_status_def)

theorem fetch_failure_keeps_store_witness:
  "disk (fst (run_once (example_cycle (\<lambda>n url. ConnectionFailed) example_reader)
                \<lparr>disk = [(CACHE_FILE, example_cache)], requests = []\<rparr>))
     = [(CACHE_FILE, example_cache)]
   \<and> snd (run_once (example_cycle (\<lambda>n url. Response 404 []) example_reader)
                \<lparr>disk = [(CACHE_FILE, example_cache)], requests = []\<rparr>)
     = Aborted (HTTPError 404)
   \<and> disk (fst (run_once (example_cycle (\<lambda>n url. Response 404 []) example_reader)
                \<lparr>disk = [(CACHE_FILE, example_cache)], requests = []\<rparr>))
     = [(CACHE_FILE, example_cache)]
   \<and> snd (run_once (example_cycle (\<lambda>n url. Response 200 example_payload) example_reader)
                \<lparr>disk = [(CACHE_FILE, example_cache)], requests = []\<rparr>)
     = Aborted (KeyError ''URL'')
   \<and> disk (fst (run_once (example_cycle (\<lambda>n url. Response 200 example_payload) example_reader)
                \<lparr>disk = [(CACHE_FILE, example_cache)], requests = []\<rparr>))
     = [(CACHE_FILE, example_cache)]"
proof -
  let ?w = "\<lparr>disk = [(CACHE_FILE, example_cache)], requests = []\<rparr>"
  let ?E1 = "example_cycle (\<lambda>n url. ConnectionFailed) example_reader"
  let ?E2 = "example_cycle (\<lambda>n url. Response 404 []) example_reader"
  let ?E3 = "example_cycle (\<lambda>n url. Response 200 example_payload) example_reader"
  have h1: "http ?E1 (length (requests ?w)) REMOTE_CSV_URL = ConnectionFailed"
    by (simp add: example_cycle_def)
  have h2: "http ?E2 (length (requests ?w)) REMOTE_CSV_URL = Response 404 []
              \<and> (400::nat) \<le> 404 \<and> (404::nat) < 600"
    by (simp add: example_cycle_def)
  have p3: "parse_csv (dict_reader ?E3) example_payload = Inl (KeyError ''URL'')" by code_simp
  have h3: "http ?E3 (length (requests ?w)) REMOTE_CSV_URL = Response 200 example_payload
              \<and> \<not> ((400::nat) \<le> 200 \<and> (200::nat) < 600)
              \<and> parse_csv (dict_reader ?E3) example_payload = Inl (KeyError ''URL'')"
    using p3 by (simp add: example_cycle_def)
  have 1: "disk (fst (run_once ?E1 ?w)) = disk ?w"
    by (rule conjunct1[OF mp[OF conjunct1[OF fetch_failure_keeps_store] h1]])
  note c2 = mp[OF conjunct1[OF conjunct2[OF fetch_failure_keeps_store]] h2]
  have 2: "snd (run_once ?E2 ?w) = Aborted (HTTPError 404)" by (rule conjunct2[OF c2])
  have 3: "disk (fst (run_once ?E2 ?w)) = disk ?w" by (rule conjunct1[OF c2])
  note c3 = mp[OF conjunct2[OF conjunct2[OF fetch_failure_keeps_store]] h3]
  have 4: "snd (run_once ?E3 ?w) = Aborted (KeyError ''URL'')" by (rule conjunct2[OF c3])
  have 5: "disk (fst (run_once ?E3 ?w)) = disk ?w" by (rule conjunct1[OF c3])
  show ?thesis using 1 2 3 4 5 by simp
qed

end
